theory Spec2Isabelle
  imports Main
begin

section \<open>The vending machine of Vending\_Machine\_SA\_4.py\<close>

text \<open>
  The controller is the class \<open>VendingMachine\<close> together with the four state classes
  \<open>WaitingState\<close>, \<open>AddCoinsState\<close>, \<open>DeliverProductState\<close> and \<open>CountChangeState\<close>.
  Every method mutates the machine object; here every method takes the machine and
  returns the machine it leaves behind. A Python exception is the left summand of
  \<open>error + machine\<close>. The only loop that is not bounded by a list is the \<open>while\<close> of
  \<open>CountChangeState.update\<close>; a run of it that does not return is the value \<open>None\<close>.

  What the program prints is kept as a list of messages (field \<open>out\<close>). A message names
  the \<open>print\<close> or \<open>log\<close> call it comes from and carries the values formatted into its
  text; the formatting itself (\<open>capitalize\<close>, the division by 100 into dollars) is not
  modelled. \<open>sleep\<close> calls are left out. Event strings are \<open>string\<close>s.
\<close>

subsection \<open>Class constants\<close>

definition PRODUCTS :: "(string \<times> (string \<times> int)) list" where
  "PRODUCTS = [(''diode'', (''1N4001 diode'', 75)),
               (''transistor'', (''2N3904 BJT'', 150)),
               (''cap'', (''0.1uF Capacitor'', 50)),
               (''res'', (''10k Resistor'', 5))]"

definition INITIAL_STOCK :: "(string \<times> int) list" where
  "INITIAL_STOCK = [(''diode'', 3), (''transistor'', 2), (''cap'', 4), (''res'', 5)]"

definition COINS :: "(string \<times> (string \<times> int)) list" where
  "COINS = [(''5'', (''5'', 5)), (''10'', (''10'', 10)), (''25'', (''25'', 25)),
            (''100'', (''100'', 100)), (''200'', (''200'', 200))]"

subsection \<open>Data\<close>

datatype error = KeyError string | AttributeError string

datatype msg =
    Log_coin_values "int list"
  | Log_button_pressed
  | Log_exiting string
  | Log_entering string
  | Print_waiting
  | Print_balance int
  | Print_out_of_stock string
  | Print_insufficient int
  | Print_dispensing string
  | Print_dispensed string int
  | Log_activating
  | Dispenser_activate
  | Log_dispense_complete
  | Print_error_out_of_stock string
  | Print_dispensing_change
  | Print_change_due int
  | Log_change_return int
  | Print_returning int
  | Frame_hidden string

text \<open>
  The state classes. A state object is an instance of one of them; \<open>oid\<close> is the identity
  of the instance, which is all that tells two instances of one class apart.
\<close>

datatype state_class =
  State | WaitingState | AddCoinsState | DeliverProductState | CountChangeState

fun NAME :: "state_class \<Rightarrow> string" where
  "NAME State = ''''"
| "NAME WaitingState = ''waiting''"
| "NAME AddCoinsState = ''add_coins''"
| "NAME DeliverProductState = ''deliver_product''"
| "NAME CountChangeState = ''count_change''"

datatype state_obj = Obj (cls: state_class) (oid: nat)

definition name :: "state_obj \<Rightarrow> string" where
  "name s = NAME (cls s)"

text \<open>
  The fields of a \<open>VendingMachine\<close>. \<open>selected_button_key\<close> and \<open>vend_successful\<close> are
  attributes the source creates and deletes at run time: \<open>None\<close> is "no such attribute".
  \<open>hardware_present\<close> is the module-level flag set once when the module is loaded.
\<close>

record machine =
  state :: "state_obj option"
  states :: "string \<rightharpoonup> state_obj"
  event :: string
  amount :: int
  change_due :: int
  stock :: "string \<rightharpoonup> int"
  coin_values :: "int list"
  selected_button_key :: "string option"
  vend_successful :: "bool option"
  hardware_present :: bool
  out :: "msg list"

subsection \<open>VendingMachine\<close>

definition VendingMachine_init :: "bool \<Rightarrow> machine" where
  "VendingMachine_init hw =
     (let values = map (\<lambda>k. snd (snd k)) COINS;
          cv = rev (sort values)
      in \<lparr> state = None, states = Map.empty, event = '''', amount = 0, change_due = 0,
           stock = map_of INITIAL_STOCK, coin_values = cv,
           selected_button_key = None, vend_successful = None,
           hardware_present = hw, out = [Log_coin_values cv] \<rparr>)"

definition add_state :: "machine \<Rightarrow> state_obj \<Rightarrow> machine" where
  "add_state self s = self\<lparr>states := (states self)(name s \<mapsto> s)\<rparr>"

definition add_coin :: "machine \<Rightarrow> string \<Rightarrow> error + machine" where
  "add_coin self coin =
     (case map_of COINS coin of
        None \<Rightarrow> Inl (KeyError coin)
      | Some (label, v) \<Rightarrow> Inr (self\<lparr>amount := amount self + v\<rparr>))"

definition button_action :: "machine \<Rightarrow> machine" where
  "button_action self = self\<lparr>event := ''RETURN''\<rparr>"

text \<open>The callback registered on the GPIO pin; it exists only with the hardware.\<close>

definition wrapped_button_action :: "machine \<Rightarrow> machine" where
  "wrapped_button_action self =
     (if hardware_present self
      then self\<lparr>event := ''RETURN'', out := out self @ [Log_button_pressed]\<rparr>
      else self)"

subsection \<open>on\_entry and on\_exit of the state classes\<close>

definition stock_get :: "machine \<Rightarrow> string \<Rightarrow> int \<Rightarrow> int" where
  "stock_get machine k d = (case stock machine k of None \<Rightarrow> d | Some n \<Rightarrow> n)"

definition DeliverProductState_on_entry :: "machine \<Rightarrow> error + machine" where
  "DeliverProductState_on_entry machine =
     (let product_key = event machine in
      if stock_get machine product_key 0 > 0 then
        (let left = stock_get machine product_key 0 - 1 in
         case map_of PRODUCTS product_key of
           None \<Rightarrow> Inl (KeyError product_key)
         | Some (product_name, price) \<Rightarrow>
             Inr (machine\<lparr>stock := (stock machine)(product_key \<mapsto> left),
                          change_due := amount machine - price,
                          amount := 0,
                          out := out machine
                            @ [Print_dispensing product_name, Print_dispensed product_name left]
                            @ (if hardware_present machine
                               then [Log_activating, Dispenser_activate, Log_dispense_complete]
                               else []),
                          vend_successful := Some True\<rparr>))
      else
        Inr (machine\<lparr>out := out machine @ [Print_error_out_of_stock product_key],
                     vend_successful := Some False,
                     selected_button_key := None\<rparr>))"

definition on_entry :: "state_obj \<Rightarrow> machine \<Rightarrow> error + machine" where
  "on_entry s machine =
     (case cls s of
        State \<Rightarrow> Inr machine
      | WaitingState \<Rightarrow> Inr (machine\<lparr>out := out machine @ [Print_waiting]\<rparr>)
      | AddCoinsState \<Rightarrow> Inr (machine\<lparr>out := out machine @ [Print_balance (amount machine)]\<rparr>)
      | DeliverProductState \<Rightarrow> DeliverProductState_on_entry machine
      | CountChangeState \<Rightarrow>
          Inr (machine\<lparr>out := out machine
                 @ [Print_dispensing_change, Print_change_due (change_due machine),
                    Log_change_return (change_due machine)]\<rparr>))"

definition on_exit :: "state_obj \<Rightarrow> machine \<Rightarrow> machine" where
  "on_exit s machine = machine"

definition go_to_state :: "machine \<Rightarrow> string \<Rightarrow> error + machine" where
  "go_to_state self state_name =
     (let m1 = (case state self of
                  None \<Rightarrow> self
                | Some s \<Rightarrow> on_exit s (self\<lparr>out := out self @ [Log_exiting (name s)]\<rparr>))
      in case states m1 state_name of
           None \<Rightarrow> Inl (KeyError state_name)
         | Some s \<Rightarrow> on_entry s (m1\<lparr>state := Some s, out := out m1 @ [Log_entering (name s)]\<rparr>))"

subsection \<open>update of the state classes\<close>

definition WaitingState_update :: "machine \<Rightarrow> error + machine" where
  "WaitingState_update machine =
     (if event machine \<in> fst ` set COINS then
        (case add_coin machine (event machine) of
           Inl e \<Rightarrow> Inl e
         | Inr m1 \<Rightarrow> go_to_state m1 ''add_coins'')
      else if event machine = ''RETURN'' then Inr (machine\<lparr>event := ''''\<rparr>)
      else Inr machine)"

text \<open>\<open>event.rsplit('_', 1)[0]\<close>: what stands before the last underscore.\<close>

definition rsplit_head :: "string \<Rightarrow> string" where
  "rsplit_head s =
     (if CHR ''_'' \<in> set s
      then rev (tl (dropWhile (\<lambda>c. c \<noteq> CHR ''_'') (rev s)))
      else s)"

definition AddCoinsState_update :: "state_obj \<Rightarrow> machine \<Rightarrow> error + machine" where
  "AddCoinsState_update self machine =
     (let r =
        (if event machine = ''RETURN'' then
           go_to_state (machine\<lparr>change_due := amount machine, amount := 0\<rparr>) ''count_change''
         else if event machine \<in> fst ` set COINS then
           (case add_coin machine (event machine) of
              Inl e \<Rightarrow> Inl e
            | Inr m1 \<Rightarrow> on_entry self m1)
         else if CHR ''_'' \<in> set (event machine) then
           (let product_key = rsplit_head (event machine) in
            case map_of PRODUCTS product_key of
              None \<Rightarrow> Inr machine
            | Some (product_name, price) \<Rightarrow>
                (case stock machine product_key of
                   None \<Rightarrow> Inl (KeyError product_key)
                 | Some n \<Rightarrow>
                     if n \<le> 0 then
                       Inr (machine\<lparr>out := out machine @ [Print_out_of_stock product_key]\<rparr>)
                     else if amount machine \<ge> price then
                       go_to_state
                         (machine\<lparr>selected_button_key := Some (event machine),
                                  event := product_key\<rparr>)
                         ''deliver_product''
                     else
                       Inr (machine\<lparr>out := out machine @ [Print_insufficient price]\<rparr>)))
         else Inr machine)
      in case r of Inl e \<Rightarrow> Inl e | Inr m2 \<Rightarrow> Inr (m2\<lparr>event := ''''\<rparr>))"

definition DeliverProductState_update :: "machine \<Rightarrow> error + machine" where
  "DeliverProductState_update machine =
     (if change_due machine > 0 then go_to_state machine ''count_change''
      else go_to_state machine ''waiting'')"

text \<open>
  The \<open>while\<close> loop of \<open>CountChangeState.update\<close> for one coin value, and the \<open>for\<close> loop
  around it. Both carry the remaining change and the messages printed so far.
\<close>

partial_function (option) while_remaining :: "int \<Rightarrow> int \<Rightarrow> msg list \<Rightarrow> (int \<times> msg list) option"
  where
  "while_remaining coin_value remaining_change ms =
     (if remaining_change \<ge> coin_value
      then while_remaining coin_value (remaining_change - coin_value)
             (ms @ [Print_returning coin_value])
      else Some (remaining_change, ms))"

declare while_remaining.simps [code]

fun for_coin_values :: "int list \<Rightarrow> int \<Rightarrow> msg list \<Rightarrow> (int \<times> msg list) option" where
  "for_coin_values [] remaining_change ms = Some (remaining_change, ms)"
| "for_coin_values (coin_value # rest) remaining_change ms =
     (case while_remaining coin_value remaining_change ms of
        None \<Rightarrow> None
      | Some (r, ms') \<Rightarrow> for_coin_values rest r ms')"

definition CountChangeState_update :: "machine \<Rightarrow> (error + machine) option" where
  "CountChangeState_update machine =
     (case for_coin_values (coin_values machine) (change_due machine) (out machine) of
        None \<Rightarrow> None
      | Some (remaining_change, ms) \<Rightarrow>
          (let m1 = machine\<lparr>out := ms, change_due := 0\<rparr> in
           if remaining_change = 0 then Some (go_to_state m1 ''waiting'')
           else Some (Inr m1)))"

definition State_update :: "state_obj \<Rightarrow> machine \<Rightarrow> (error + machine) option" where
  "State_update s machine =
     (case cls s of
        State \<Rightarrow> Some (Inr machine)
      | WaitingState \<Rightarrow> Some (WaitingState_update machine)
      | AddCoinsState \<Rightarrow> Some (AddCoinsState_update s machine)
      | DeliverProductState \<Rightarrow> Some (DeliverProductState_update machine)
      | CountChangeState \<Rightarrow> CountChangeState_update machine)"

definition update :: "machine \<Rightarrow> (error + machine) option" where
  "update self = (case state self of None \<Rightarrow> Some (Inr self) | Some s \<Rightarrow> State_update s self)"

subsection \<open>The hardware button\<close>

text \<open>
  With the hardware, \<open>__init__\<close> registers \<open>wrapped_button_action\<close> with
  \<open>GPIO.add_event_detect\<close>: the callback runs whenever the button is pressed, in the
  middle of whatever the main program is doing. Of the fields kept here the callback writes
  \<open>event\<close> only (and logs a line), so all that matters is between which two accesses of the
  main program to \<open>event\<close> it runs. A \<open>point\<close> is such an access, named by its line in the
  source (line 212 reads the event twice). A set of points says before which accesses of
  one pass of the main loop the callback has run, and \<open>fire F p machine\<close> is the machine as
  the access \<open>p\<close> finds it. A second press before the same access writes the same
  string again. The log line of the callback is put where the access is; where it falls
  among the lines printed since the access before is not modelled.
\<close>

datatype point =
    L190 | L191 | L193 | L195
  | L203 | L208 | L209 | L212a | L212b | L213 | L222 | L223 | L228
  | L234
  | L362 | L367 | L381

definition fire :: "point set \<Rightarrow> point \<Rightarrow> machine \<Rightarrow> machine" where
  "fire F p machine = (if p \<in> F then wrapped_button_action machine else machine)"

text \<open>
  The methods once more, with the callback running at the points of \<open>F\<close>. With no point
  in \<open>F\<close> they are the methods above.
\<close>

definition on_entry_at :: "point set \<Rightarrow> state_obj \<Rightarrow> machine \<Rightarrow> error + machine" where
  "on_entry_at F s machine =
     (case cls s of
        DeliverProductState \<Rightarrow> DeliverProductState_on_entry (fire F L234 machine)
      | _ \<Rightarrow> on_entry s machine)"

definition go_to_state_at :: "point set \<Rightarrow> machine \<Rightarrow> string \<Rightarrow> error + machine" where
  "go_to_state_at F self state_name =
     (let m1 = (case state self of
                  None \<Rightarrow> self
                | Some s \<Rightarrow> on_exit s (self\<lparr>out := out self @ [Log_exiting (name s)]\<rparr>))
      in case states m1 state_name of
           None \<Rightarrow> Inl (KeyError state_name)
         | Some s \<Rightarrow>
             on_entry_at F s (m1\<lparr>state := Some s, out := out m1 @ [Log_entering (name s)]\<rparr>))"

definition WaitingState_update_at :: "point set \<Rightarrow> machine \<Rightarrow> error + machine" where
  "WaitingState_update_at F machine =
     (let m1 = fire F L190 machine in
      if event m1 \<in> fst ` set COINS then
        (let m2 = fire F L191 m1 in
         case add_coin m2 (event m2) of
           Inl e \<Rightarrow> Inl e
         | Inr m3 \<Rightarrow> go_to_state_at F m3 ''add_coins'')
      else
        (let m2 = fire F L193 m1 in
         if event m2 = ''RETURN'' then Inr ((fire F L195 m2)\<lparr>event := ''''\<rparr>)
         else Inr m2))"

definition AddCoinsState_update_at ::
  "point set \<Rightarrow> state_obj \<Rightarrow> machine \<Rightarrow> error + machine" where
  "AddCoinsState_update_at F self machine =
     (let m1 = fire F L203 machine;
          r =
        (if event m1 = ''RETURN'' then
           go_to_state_at F (m1\<lparr>change_due := amount m1, amount := 0\<rparr>) ''count_change''
         else
           (let m2 = fire F L208 m1 in
            if event m2 \<in> fst ` set COINS then
              (let m3 = fire F L209 m2 in
               case add_coin m3 (event m3) of
                 Inl e \<Rightarrow> Inl e
               | Inr m4 \<Rightarrow> on_entry_at F self m4)
            else
              (let m3 = fire F L212b (fire F L212a m2) in
               if CHR ''_'' \<in> set (event m3) then
                 (let m4 = fire F L213 m3;
                      product_key = rsplit_head (event m4)
                  in case map_of PRODUCTS product_key of
                       None \<Rightarrow> Inr m4
                     | Some (product_name, price) \<Rightarrow>
                         (case stock m4 product_key of
                            None \<Rightarrow> Inl (KeyError product_key)
                          | Some n \<Rightarrow>
                              if n \<le> 0 then
                                Inr (m4\<lparr>out := out m4 @ [Print_out_of_stock product_key]\<rparr>)
                              else if amount m4 \<ge> price then
                                (let m5 = fire F L222 m4;
                                     m6 = fire F L223 (m5\<lparr>selected_button_key := Some (event m5)\<rparr>)
                                 in go_to_state_at F (m6\<lparr>event := product_key\<rparr>)
                                      ''deliver_product'')
                              else
                                Inr (m4\<lparr>out := out m4 @ [Print_insufficient price]\<rparr>)))
               else Inr m3)))
      in case r of Inl e \<Rightarrow> Inl e | Inr m7 \<Rightarrow> Inr ((fire F L228 m7)\<lparr>event := ''''\<rparr>))"

definition DeliverProductState_update_at :: "point set \<Rightarrow> machine \<Rightarrow> error + machine" where
  "DeliverProductState_update_at F machine =
     (if change_due machine > 0 then go_to_state_at F machine ''count_change''
      else go_to_state_at F machine ''waiting'')"

definition CountChangeState_update_at :: "point set \<Rightarrow> machine \<Rightarrow> (error + machine) option"
  where
  "CountChangeState_update_at F machine =
     (case for_coin_values (coin_values machine) (change_due machine) (out machine) of
        None \<Rightarrow> None
      | Some (remaining_change, ms) \<Rightarrow>
          (let m1 = machine\<lparr>out := ms, change_due := 0\<rparr> in
           if remaining_change = 0 then Some (go_to_state_at F m1 ''waiting'')
           else Some (Inr m1)))"

definition State_update_at ::
  "point set \<Rightarrow> state_obj \<Rightarrow> machine \<Rightarrow> (error + machine) option" where
  "State_update_at F s machine =
     (case cls s of
        State \<Rightarrow> Some (Inr machine)
      | WaitingState \<Rightarrow> Some (WaitingState_update_at F machine)
      | AddCoinsState \<Rightarrow> Some (AddCoinsState_update_at F s machine)
      | DeliverProductState \<Rightarrow> Some (DeliverProductState_update_at F machine)
      | CountChangeState \<Rightarrow> CountChangeState_update_at F machine)"

definition update_at :: "point set \<Rightarrow> machine \<Rightarrow> (error + machine) option" where
  "update_at F self =
     (case state self of None \<Rightarrow> Some (Inr self) | Some s \<Rightarrow> State_update_at F s self)"

subsection \<open>The main program\<close>

text \<open>
  One pass of the \<open>while True\<close> loop after \<open>window.read\<close> has returned the string
  \<open>gui_event\<close> (a key of the window, or the time-out key) and the test for closing has
  failed; \<open>F\<close> are the points of the pass at which the hardware button has been pressed
  (a press while the window is read is a press before line 362). The frame of the sold
  item is hidden once the machine has left \<open>deliver_product\<close>; what the window does with
  a key it has no frame for is not modelled.
\<close>

definition tick :: "point set \<Rightarrow> string \<Rightarrow> machine \<Rightarrow> (error + machine) option" where
  "tick F gui_event vending =
     (let v0 = fire F L362 vending;
          v1 = (if event v0 = ''RETURN'' then v0 else (fire F L367 v0)\<lparr>event := gui_event\<rparr>)
      in case update_at F v1 of
           None \<Rightarrow> None
         | Some (Inl e) \<Rightarrow> Some (Inl e)
         | Some (Inr v2) \<Rightarrow>
             (case state v2 of
                None \<Rightarrow> Some (Inl (AttributeError ''name''))
              | Some s \<Rightarrow>
                  if name s \<noteq> ''deliver_product'' \<and> vend_successful v2 = Some True then
                    (case selected_button_key v2 of
                       None \<Rightarrow> Some (Inl (AttributeError ''selected_button_key''))
                     | Some k \<Rightarrow>
                         Some (Inr ((fire F L381
                                      (v2\<lparr>out := out v2 @ [Frame_hidden k],
                                          vend_successful := Some False,
                                          selected_button_key := None\<rparr>))
                                    \<lparr>event := ''''\<rparr>)))
                  else Some (Inr ((fire F L381 v2)\<lparr>event := ''''\<rparr>))))"

text \<open>
  The passes of the loop: for each, the presses of the button during the pass and the
  string \<open>window.read\<close> returns. The event \<open>Exit\<close> and the end of the passes (the window
  is closed) leave the loop.
\<close>

fun main_loop :: "(point set \<times> string) list \<Rightarrow> machine \<Rightarrow> (error + machine) option" where
  "main_loop [] vending = Some (Inr vending)"
| "main_loop ((F, ev) # rest) vending =
     (if ev = ''Exit'' then Some (Inr vending)
      else case tick F ev vending of
             None \<Rightarrow> None
           | Some (Inl e) \<Rightarrow> Some (Inl e)
           | Some (Inr v) \<Rightarrow> main_loop rest v)"

definition main_setup :: "bool \<Rightarrow> error + machine" where
  "main_setup hw =
     go_to_state
       (add_state (add_state (add_state (add_state (VendingMachine_init hw)
          (Obj WaitingState 0)) (Obj AddCoinsState 1)) (Obj DeliverProductState 2))
          (Obj CountChangeState 3))
       ''waiting''"

definition run :: "bool \<Rightarrow> (point set \<times> string) list \<Rightarrow> (error + machine) option" where
  "run hw passes =
     (case main_setup hw of
        Inl e \<Rightarrow> Some (Inl e)
      | Inr vending \<Rightarrow> main_loop passes vending)"

subsection \<open>Well-formed machines\<close>

text \<open>
  \<open>registered m\<close>: the four names the state classes pass to \<open>go_to_state\<close> are in the
  registry, each bound to an instance of the class of that name, as after the four
  \<open>add_state\<close> calls of the main program and of the fixture of the tests.
\<close>

definition registered :: "machine \<Rightarrow> bool" where
  "registered m =
     (map_option cls (states m ''waiting'') = Some WaitingState \<and>
      map_option cls (states m ''add_coins'') = Some AddCoinsState \<and>
      map_option cls (states m ''deliver_product'') = Some DeliverProductState \<and>
      map_option cls (states m ''count_change'') = Some CountChangeState)"

text \<open>The class of the active state, if there is one.\<close>

definition active :: "machine \<Rightarrow> state_class option" where
  "active m = map_option cls (state m)"

text \<open>\<open>COINS[coin][1]\<close>, the value of a coin key (0 for a string that is no key).\<close>

definition coin_value :: "string \<Rightarrow> int" where
  "coin_value coin = (case map_of COINS coin of None \<Rightarrow> 0 | Some (label, v) \<Rightarrow> v)"

text \<open>
  The machine the fixture of the test file returns: a new \<open>VendingMachine\<close> without the
  hardware, the four states registered, sent to \<open>waiting\<close>. The tests then set fields of
  it and call \<open>go_to_state\<close> and \<open>update\<close> on it.
\<close>

definition fixture :: machine where
  "fixture = \<lparr> state = Some (Obj WaitingState 0),
       states = [''waiting'' \<mapsto> Obj WaitingState 0, ''add_coins'' \<mapsto> Obj AddCoinsState 1,
                 ''deliver_product'' \<mapsto> Obj DeliverProductState 2,
                 ''count_change'' \<mapsto> Obj CountChangeState 3],
       event = '''', amount = 0, change_due = 0,
       stock = map_of INITIAL_STOCK, coin_values = [200, 100, 25, 10, 5],
       selected_button_key = None, vend_successful = None, hardware_present = False,
       out = [Log_coin_values [200, 100, 25, 10, 5], Log_entering ''waiting'', Print_waiting] \<rparr>"

text \<open>The name of the active state, \<open>vending.state.name\<close>.\<close>

definition state_name :: "machine \<Rightarrow> string option" where
  "state_name m = map_option name (state m)"

text \<open>What \<open>go_to_state\<close> logs for the state it leaves.\<close>

definition exit_log :: "machine \<Rightarrow> msg list" where
  "exit_log m = (case state m of None \<Rightarrow> [] | Some a \<Rightarrow> [Log_exiting (name a)])"

text \<open>
  What holds of balance and change due in each phase of a run of the main program. A
  balance is held in \<open>deliver_product\<close> and carried into \<open>waiting\<close> when the button is
  pressed between lines 223 and 234 and the entry of \<open>deliver_product\<close> fails.
\<close>

definition phase_ok :: "state_class \<Rightarrow> int \<Rightarrow> int \<Rightarrow> bool" where
  "phase_ok c a d =
     (case c of
        State \<Rightarrow> False
      | WaitingState \<Rightarrow> 0 \<le> a \<and> d = 0
      | AddCoinsState \<Rightarrow> 0 < a \<and> d = 0
      | DeliverProductState \<Rightarrow> (a = 0 \<and> 0 \<le> d) \<or> (0 < a \<and> d = 0)
      | CountChangeState \<Rightarrow> a = 0 \<and> 0 \<le> d)"

definition machine_ok :: "machine \<Rightarrow> bool" where
  "machine_ok m =
     (registered m \<and>
      coin_values m = [200, 100, 25, 10, 5] \<and>
      dom (stock m) = fst ` set PRODUCTS \<and>
      (\<forall>p n. stock m p = Some n \<longrightarrow> 0 \<le> n) \<and>
      5 dvd amount m \<and> 5 dvd change_due m \<and>
      (vend_successful m = Some True \<longrightarrow> selected_button_key m \<noteq> None) \<and>
      (\<exists>s. state m = Some s \<and> phase_ok (cls s) (amount m) (change_due m)))"

text \<open>Two machines that differ in \<open>event\<close> and \<open>out\<close> at most.\<close>

definition same :: "machine \<Rightarrow> machine \<Rightarrow> bool" where
  "same a b \<longleftrightarrow>
     state a = state b \<and> states a = states b \<and> amount a = amount b \<and>
     change_due a = change_due b \<and> stock a = stock b \<and> coin_values a = coin_values b \<and>
     selected_button_key a = selected_button_key b \<and>
     vend_successful a = vend_successful b \<and> hardware_present a = hardware_present b"

text \<open>The bounds on balance, change due and stock counts.\<close>

definition nonnegative :: "machine \<Rightarrow> bool" where
  "nonnegative m \<longleftrightarrow>
     0 \<le> amount m \<and> 0 \<le> change_due m \<and>
     (\<forall>p \<in> fst ` set PRODUCTS. \<exists>n. stock m p = Some n \<and> 0 \<le> n)"

section \<open>The change loop\<close>

lemma coin_values_init: "coin_values (VendingMachine_init hw) = [200, 100, 25, 10, 5]"
  by (simp add: VendingMachine_init_def COINS_def Let_def)

lemma while_remaining_stop: "r < c \<Longrightarrow> while_remaining c r ms = Some (r, ms)"
  by (subst while_remaining.simps) simp

lemma while_remaining_pos:
  "0 < c \<Longrightarrow> 0 \<le> r \<Longrightarrow>
   while_remaining c r ms = Some (r mod c, ms @ replicate (nat (r div c)) (Print_returning c))"
proof (induction "nat r" arbitrary: r ms rule: less_induct)
  case less
  show ?case
  proof (cases "r \<ge> c")
    case True
    have d: "r div c = (r - c) div c + 1"
      using less.prems by (metis div_add_self2 diff_add_cancel less_irrefl)
    have n: "nat (r div c) = Suc (nat ((r - c) div c))"
      using d True less.prems by (simp add: nat_add_distrib pos_imp_zdiv_nonneg_iff)
    have "while_remaining c r ms = while_remaining c (r - c) (ms @ [Print_returning c])"
      using True by (subst while_remaining.simps) simp
    also have "\<dots> = Some ((r - c) mod c,
        (ms @ [Print_returning c]) @ replicate (nat ((r - c) div c)) (Print_returning c))"
      using less.hyps[of "r - c"] less.prems True by simp
    finally show ?thesis
      by (simp add: n replicate_app_Cons_same)
  next
    case False
    then show ?thesis
      using less.prems by (simp add: while_remaining_stop div_pos_pos_trivial)
  qed
qed

lemma for_coin_values_negative:
  "c < 0 \<Longrightarrow> for_coin_values [200, 100, 25, 10, 5] c ms = Some (c, ms)"
  by (simp add: while_remaining_stop)

lemma for_coin_values_five:
  assumes "0 \<le> c" "0 < d1" "0 < d2" "0 < d3" "0 < d4" "0 < d5"
  shows "for_coin_values [d1, d2, d3, d4, d5] c ms =
     Some (c mod d1 mod d2 mod d3 mod d4 mod d5,
           ms @ map Print_returning
                  (replicate (nat (c div d1)) d1 @ replicate (nat (c mod d1 div d2)) d2 @
                   replicate (nat (c mod d1 mod d2 div d3)) d3 @
                   replicate (nat (c mod d1 mod d2 mod d3 div d4)) d4 @
                   replicate (nat (c mod d1 mod d2 mod d3 mod d4 div d5)) d5))"
  using assms by (simp add: while_remaining_pos)

lemma for_coin_values_nonneg:
  "0 \<le> c \<Longrightarrow> for_coin_values [200, 100, 25, 10, 5] c ms =
     Some (c mod 200 mod 100 mod 25 mod 10 mod 5,
           ms @ map Print_returning
                  (replicate (nat (c div 200)) 200 @ replicate (nat (c mod 200 div 100)) 100 @
                   replicate (nat (c mod 200 mod 100 div 25)) 25 @
                   replicate (nat (c mod 200 mod 100 mod 25 div 10)) 10 @
                   replicate (nat (c mod 200 mod 100 mod 25 mod 10 div 5)) 5))"
  by (rule for_coin_values_five) simp_all

lemma mod_chain: "(c::int) mod 200 mod 100 mod 25 mod 10 mod 5 = c mod 5"
  by (simp add: mod_mod_cancel)

lemma sum_list_replicate_div:
  "0 \<le> (r::int) \<Longrightarrow> 0 < c \<Longrightarrow> sum_list (replicate (nat (r div c)) c) = r - r mod c"
proof -
  assume a: "0 \<le> r" "0 < c"
  have "sum_list (replicate (nat (r div c)) c) = int (nat (r div c)) * c"
    by (induction "nat (r div c)") (simp_all add: sum_list_replicate)
  also have "\<dots> = (r div c) * c"
    using a by (simp add: pos_imp_zdiv_nonneg_iff)
  also have "\<dots> = r - r mod c"
    by (simp add: minus_mod_eq_div_mult)
  finally show ?thesis .
qed

lemma greedy_sum_gen:
  assumes "0 \<le> (c::int)" "0 < d1" "0 < d2" "0 < d3" "0 < d4" "0 < d5"
  shows "sum_list (replicate (nat (c div d1)) d1 @ replicate (nat (c mod d1 div d2)) d2 @
                   replicate (nat (c mod d1 mod d2 div d3)) d3 @
                   replicate (nat (c mod d1 mod d2 mod d3 div d4)) d4 @
                   replicate (nat (c mod d1 mod d2 mod d3 mod d4 div d5)) d5)
         = c - c mod d1 mod d2 mod d3 mod d4 mod d5"
proof -
  have nn: "0 \<le> c mod d1" "0 \<le> c mod d1 mod d2" "0 \<le> c mod d1 mod d2 mod d3"
           "0 \<le> c mod d1 mod d2 mod d3 mod d4"
    using assms by simp_all
  show ?thesis
    unfolding sum_list_append
      sum_list_replicate_div[OF assms(1) assms(2)]
      sum_list_replicate_div[OF nn(1) assms(3)]
      sum_list_replicate_div[OF nn(2) assms(4)]
      sum_list_replicate_div[OF nn(3) assms(5)]
      sum_list_replicate_div[OF nn(4) assms(6)]
    by simp
qed

lemma greedy_sum:
  assumes "0 \<le> (c::int)"
  shows "sum_list (replicate (nat (c div 200)) 200 @ replicate (nat (c mod 200 div 100)) 100 @
                   replicate (nat (c mod 200 mod 100 div 25)) 25 @
                   replicate (nat (c mod 200 mod 100 mod 25 div 10)) 10 @
                   replicate (nat (c mod 200 mod 100 mod 25 mod 10 div 5)) 5)
         = c - c mod 200 mod 100 mod 25 mod 10 mod 5"
  by (rule greedy_sum_gen[OF assms]) simp_all

section \<open>Catalog, transitions and entry actions\<close>

lemma map_of_COINS:
  "map_of COINS k = Some (l, v) \<Longrightarrow> 0 < v \<and> 5 dvd v"
  by (simp add: COINS_def split: if_splits)

lemma in_COINS:
  "k \<in> fst ` set COINS \<Longrightarrow> \<exists>l v. map_of COINS k = Some (l, v)"
  by (cases "map_of COINS k") (simp_all add: map_of_eq_None_iff)

lemma add_coin_Some:
  "map_of COINS k = Some (l, v) \<Longrightarrow> add_coin m k = Inr (m\<lparr>amount := amount m + v\<rparr>)"
  by (simp add: add_coin_def)

lemma map_of_PRODUCTS:
  "map_of PRODUCTS k = Some (n, p) \<Longrightarrow> 0 < p \<and> 5 dvd p \<and> k \<in> fst ` set PRODUCTS"
  by (simp add: PRODUCTS_def split: if_splits)

lemma go_to_state_Some:
  assumes "states m n = Some s"
  shows "go_to_state m n =
           on_entry s (m\<lparr>state := Some s, out := out m @ exit_log m @ [Log_entering (name s)]\<rparr>)"
  using assms unfolding go_to_state_def on_exit_def Let_def exit_log_def
  by (cases "state m") simp_all

lemma on_entry_dispensed:
  assumes "stock m (event m) = Some k" "0 < k" "map_of PRODUCTS (event m) = Some (pn, price)"
  shows "DeliverProductState_on_entry m =
           Inr (m\<lparr>stock := (stock m)(event m \<mapsto> k - 1), change_due := amount m - price,
                   amount := 0,
                   out := out m @ [Print_dispensing pn, Print_dispensed pn (k - 1)]
                            @ (if hardware_present m
                               then [Log_activating, Dispenser_activate, Log_dispense_complete]
                               else []),
                   vend_successful := Some True\<rparr>)"
  using assms unfolding DeliverProductState_on_entry_def stock_get_def Let_def by simp

lemma on_entry_failed:
  assumes "stock_get m (event m) 0 \<le> 0"
  shows "DeliverProductState_on_entry m =
           Inr (m\<lparr>out := out m @ [Print_error_out_of_stock (event m)],
                   vend_successful := Some False, selected_button_key := None\<rparr>)"
  using assms unfolding DeliverProductState_on_entry_def Let_def by simp

lemma registeredD:
  assumes "registered m"
  shows "\<exists>s. states m ''waiting'' = Some s \<and> cls s = WaitingState"
    and "\<exists>s. states m ''add_coins'' = Some s \<and> cls s = AddCoinsState"
    and "\<exists>s. states m ''deliver_product'' = Some s \<and> cls s = DeliverProductState"
    and "\<exists>s. states m ''count_change'' = Some s \<and> cls s = CountChangeState"
  using assms unfolding registered_def by blast+

section \<open>One update, branch by branch\<close>

lemma coin_key_no_underscore: "ev \<in> fst ` set COINS \<Longrightarrow> CHR ''_'' \<notin> set ev"
  by (auto simp: COINS_def)

lemma RETURN_not_coin: "''RETURN'' \<notin> fst ` set COINS"
  by (simp add: COINS_def)

lemma update_Some: "state m = Some s \<Longrightarrow> update m = State_update s m"
  by (simp add: update_def)

lemma Waiting_coin:
  assumes "state m = Some s" "cls s = WaitingState"
    and "map_of COINS (event m) = Some (l, v)"
    and "states m ''add_coins'' = Some a" "cls a = AddCoinsState"
  shows "update m = Some (Inr (m\<lparr>amount := amount m + v, state := Some a,
           out := out m @ [Log_exiting ''waiting'', Log_entering ''add_coins'',
                           Print_balance (amount m + v)]\<rparr>))"
proof -
  have k: "event m \<in> fst ` set COINS"
    using assms(3) by (metis map_of_eq_None_iff option.distinct(1))
  show ?thesis
    using assms k
    by (simp add: update_def State_update_def WaitingState_update_def add_coin_Some
        go_to_state_Some on_entry_def exit_log_def name_def)
qed

lemma Waiting_RETURN:
  assumes "state m = Some s" "cls s = WaitingState" "event m = ''RETURN''"
  shows "update m = Some (Inr (m\<lparr>event := ''''\<rparr>))"
  using assms RETURN_not_coin
  by (simp add: update_def State_update_def WaitingState_update_def)

lemma Waiting_other:
  assumes "state m = Some s" "cls s = WaitingState"
    and "event m \<notin> fst ` set COINS" "event m \<noteq> ''RETURN''"
  shows "update m = Some (Inr m)"
  using assms by (simp add: update_def State_update_def WaitingState_update_def)

lemma AddCoins_RETURN:
  assumes "state m = Some s" "cls s = AddCoinsState" "event m = ''RETURN''"
    and "states m ''count_change'' = Some c" "cls c = CountChangeState"
  shows "update m = Some (Inr (m\<lparr>change_due := amount m, amount := 0, state := Some c,
           out := out m @ [Log_exiting ''add_coins'', Log_entering ''count_change'',
                           Print_dispensing_change, Print_change_due (amount m),
                           Log_change_return (amount m)],
           event := ''''\<rparr>))"
  using assms
  by (simp add: update_def State_update_def AddCoinsState_update_def Let_def
      go_to_state_Some on_entry_def exit_log_def name_def)

lemma AddCoins_coin:
  assumes "state m = Some s" "cls s = AddCoinsState"
    and "map_of COINS (event m) = Some (l, v)"
  shows "update m = Some (Inr (m\<lparr>amount := amount m + v,
           out := out m @ [Print_balance (amount m + v)], event := ''''\<rparr>))"
proof -
  have k: "event m \<in> fst ` set COINS"
    using assms(3) by (metis map_of_eq_None_iff option.distinct(1))
  then have "event m \<noteq> ''RETURN''"
    using RETURN_not_coin by metis
  then show ?thesis
    using assms k
    by (simp add: update_def State_update_def AddCoinsState_update_def Let_def add_coin_Some
        on_entry_def)
qed

lemma underscore_event:
  assumes "CHR ''_'' \<in> set ev"
  shows "ev \<noteq> ''RETURN''" "ev \<notin> fst ` set COINS"
  using assms coin_key_no_underscore by auto

lemma AddCoins_unknown_product:
  assumes "state m = Some s" "cls s = AddCoinsState" "CHR ''_'' \<in> set (event m)"
    and "map_of PRODUCTS (rsplit_head (event m)) = None"
  shows "update m = Some (Inr (m\<lparr>event := ''''\<rparr>))"
  using assms underscore_event[OF assms(3)]
  by (simp add: update_def State_update_def AddCoinsState_update_def Let_def)

lemma AddCoins_plain:
  assumes "state m = Some s" "cls s = AddCoinsState" "CHR ''_'' \<notin> set (event m)"
    and "event m \<noteq> ''RETURN''" "event m \<notin> fst ` set COINS"
  shows "update m = Some (Inr (m\<lparr>event := ''''\<rparr>))"
  using assms
  by (simp add: update_def State_update_def AddCoinsState_update_def Let_def)

lemma AddCoins_out_of_stock:
  assumes "state m = Some s" "cls s = AddCoinsState" "CHR ''_'' \<in> set (event m)"
    and "map_of PRODUCTS (rsplit_head (event m)) = Some (pn, price)"
    and "stock m (rsplit_head (event m)) = Some n" "n \<le> 0"
  shows "update m = Some (Inr (m\<lparr>out := out m @ [Print_out_of_stock (rsplit_head (event m))],
                                  event := ''''\<rparr>))"
  using assms underscore_event[OF assms(3)]
  by (simp add: update_def State_update_def AddCoinsState_update_def Let_def)

lemma AddCoins_insufficient:
  assumes "state m = Some s" "cls s = AddCoinsState" "CHR ''_'' \<in> set (event m)"
    and "map_of PRODUCTS (rsplit_head (event m)) = Some (pn, price)"
    and "stock m (rsplit_head (event m)) = Some n" "0 < n" "amount m < price"
  shows "update m = Some (Inr (m\<lparr>out := out m @ [Print_insufficient price], event := ''''\<rparr>))"
  using assms underscore_event[OF assms(3)]
  by (simp add: update_def State_update_def AddCoinsState_update_def Let_def)

lemma AddCoins_purchase:
  assumes "state m = Some s" "cls s = AddCoinsState" "CHR ''_'' \<in> set (event m)"
    and "map_of PRODUCTS (rsplit_head (event m)) = Some (pn, price)"
    and "stock m (rsplit_head (event m)) = Some n" "0 < n" "price \<le> amount m"
    and "states m ''deliver_product'' = Some d" "cls d = DeliverProductState"
  shows "update m = Some (Inr (m\<lparr>selected_button_key := Some (event m),
           state := Some d,
           stock := (stock m)(rsplit_head (event m) \<mapsto> n - 1),
           change_due := amount m - price, amount := 0,
           out := out m @ [Log_exiting ''add_coins'', Log_entering ''deliver_product'',
                           Print_dispensing pn, Print_dispensed pn (n - 1)]
                    @ (if hardware_present m
                       then [Log_activating, Dispenser_activate, Log_dispense_complete]
                       else []),
           vend_successful := Some True, event := ''''\<rparr>))"
  using assms underscore_event[OF assms(3)]
  by (simp add: update_def State_update_def AddCoinsState_update_def Let_def
      go_to_state_Some on_entry_def exit_log_def name_def on_entry_dispensed)

lemma Deliver_update:
  assumes "state m = Some s" "cls s = DeliverProductState"
    and "states m ''count_change'' = Some c" "cls c = CountChangeState"
    and "states m ''waiting'' = Some w" "cls w = WaitingState"
  shows "update m = Some (Inr (
           if 0 < change_due m
           then m\<lparr>state := Some c,
                  out := out m @ [Log_exiting ''deliver_product'', Log_entering ''count_change'',
                                  Print_dispensing_change, Print_change_due (change_due m),
                                  Log_change_return (change_due m)]\<rparr>
           else m\<lparr>state := Some w,
                  out := out m @ [Log_exiting ''deliver_product'', Log_entering ''waiting'',
                                  Print_waiting]\<rparr>))"
  using assms
  by (simp add: update_def State_update_def DeliverProductState_update_def
      go_to_state_Some on_entry_def exit_log_def name_def)

lemma CountChange_update:
  assumes "state m = Some s" "cls s = CountChangeState"
    and "for_coin_values (coin_values m) (change_due m) (out m) = Some (r, ms)"
    and "states m ''waiting'' = Some w" "cls w = WaitingState"
  shows "update m = Some (Inr (
           if r = 0
           then m\<lparr>change_due := 0, state := Some w,
                  out := ms @ [Log_exiting ''count_change'', Log_entering ''waiting'',
                               Print_waiting]\<rparr>
           else m\<lparr>out := ms, change_due := 0\<rparr>))"
  using assms
  by (simp add: update_def State_update_def CountChangeState_update_def Let_def
      go_to_state_Some on_entry_def exit_log_def name_def)

section \<open>Facts used by several claims\<close>

lemma main_setup_eq:
  "main_setup hw = Inr \<lparr> state = Some (Obj WaitingState 0),
       states = [''waiting'' \<mapsto> Obj WaitingState 0, ''add_coins'' \<mapsto> Obj AddCoinsState 1,
                 ''deliver_product'' \<mapsto> Obj DeliverProductState 2,
                 ''count_change'' \<mapsto> Obj CountChangeState 3],
       event = '''', amount = 0, change_due = 0,
       stock = map_of INITIAL_STOCK, coin_values = [200, 100, 25, 10, 5],
       selected_button_key = None, vend_successful = None, hardware_present = hw,
       out = [Log_coin_values [200, 100, 25, 10, 5], Log_entering ''waiting'', Print_waiting] \<rparr>"
  by (simp add: main_setup_def add_state_def name_def go_to_state_def on_entry_def on_exit_def
      VendingMachine_init_def COINS_def Let_def)

lemma main_setup_fixture: "main_setup False = Inr fixture"
  unfolding main_setup_eq fixture_def ..

lemma for_coin_values_rest:
  assumes "0 \<le> c"
  shows "\<exists>ms. for_coin_values [200, 100, 25, 10, 5] c ms0 = Some (c mod 5, ms)"
proof -
  have "for_coin_values [200, 100, 25, 10, 5] c ms0 =
     Some (c mod 5,
           ms0 @ map Print_returning
                  (replicate (nat (c div 200)) 200 @ replicate (nat (c mod 200 div 100)) 100 @
                   replicate (nat (c mod 200 mod 100 div 25)) 25 @
                   replicate (nat (c mod 200 mod 100 mod 25 div 10)) 10 @
                   replicate (nat (c mod 200 mod 100 mod 25 mod 10 div 5)) 5))"
    unfolding for_coin_values_nonneg[OF assms] mod_chain ..
  then show ?thesis by (rule exI)
qed

lemma for_coin_values_total:
  "\<exists>r ms. for_coin_values [200, 100, 25, 10, 5] c ms0 = Some (r, ms)"
proof (cases "0 \<le> c")
  case True
  from for_coin_values_rest[OF True] show ?thesis by blast
next
  case False
  then have "c < 0" by simp
  from for_coin_values_negative[OF this] show ?thesis by blast
qed

lemma event_commute:
  "m\<lparr>event := e\<rparr>\<lparr>state := x, out := y\<rparr> = m\<lparr>state := x, out := y\<rparr>\<lparr>event := e\<rparr>"
  "m\<lparr>event := e\<rparr>\<lparr>change_due := c, state := x, out := y\<rparr> =
     m\<lparr>change_due := c, state := x, out := y\<rparr>\<lparr>event := e\<rparr>"
  "m\<lparr>event := e\<rparr>\<lparr>out := y, change_due := c\<rparr> = m\<lparr>out := y, change_due := c\<rparr>\<lparr>event := e\<rparr>"
  by simp_all

lemma update_CountChange_any:
  assumes "state m = Some s" "cls s = CountChangeState" "registered m"
    and "coin_values m = [200, 100, 25, 10, 5]"
  shows "\<exists>m'. update m = Some (Inr m') \<and> change_due m' = 0 \<and>
          (if 0 \<le> change_due m \<and> 5 dvd change_due m
           then state_name m' = Some ''waiting'' else state m' = state m)"
proof -
  from registeredD(1)[OF assms(3)] obtain w where
    w: "states m ''waiting'' = Some w" "cls w = WaitingState" by blast
  show ?thesis
  proof (cases "0 \<le> change_due m")
    case True
    from for_coin_values_rest[OF True] obtain ms where
      loop: "for_coin_values (coin_values m) (change_due m) (out m) =
               Some (change_due m mod 5, ms)"
      unfolding assms(4) by blast
    show ?thesis
      unfolding CountChange_update[OF assms(1,2) loop w]
      using True w by (simp add: state_name_def name_def dvd_eq_mod_eq_0)
  next
    case False
    then have neg: "change_due m < 0" by simp
    have loop: "for_coin_values (coin_values m) (change_due m) (out m) =
        Some (change_due m, out m)"
      unfolding assms(4) by (rule for_coin_values_negative[OF neg])
    show ?thesis
      unfolding CountChange_update[OF assms(1,2) loop w]
      using neg assms(1) by simp
  qed
qed

lemma failed_dispense:
  assumes "registered m" "stock_get m (event m) 0 \<le> 0"
  shows "\<exists>d. cls d = DeliverProductState \<and>
           go_to_state m ''deliver_product'' =
             Inr (m\<lparr>state := Some d,
                     out := out m @ exit_log m @ [Log_entering ''deliver_product'',
                                                  Print_error_out_of_stock (event m)],
                     vend_successful := Some False, selected_button_key := None\<rparr>)"
proof -
  from registeredD(3)[OF assms(1)] obtain d where
    d: "states m ''deliver_product'' = Some d" "cls d = DeliverProductState" by blast
  let ?m1 = "m\<lparr>state := Some d, out := out m @ exit_log m @ [Log_entering (name d)]\<rparr>"
  have f: "stock_get ?m1 (event ?m1) 0 \<le> 0" using assms(2) by (simp add: stock_get_def)
  have "go_to_state m ''deliver_product'' = DeliverProductState_on_entry ?m1"
    unfolding go_to_state_Some[OF d(1)] by (simp add: on_entry_def d(2))
  also note on_entry_failed[OF f]
  finally show ?thesis using d(2) by (auto simp: name_def)
qed

lemma leave_deliver:
  assumes "registered m" "state m = Some d" "cls d = DeliverProductState"
  shows "\<exists>t ms. update m = Some (Inr (m\<lparr>state := Some t, out := ms\<rparr>)) \<and>
           cls t = (if 0 < change_due m then CountChangeState else WaitingState)"
proof -
  from registeredD[OF assms(1)] obtain w c where
    w: "states m ''waiting'' = Some w" "cls w = WaitingState" and
    c: "states m ''count_change'' = Some c" "cls c = CountChangeState" by blast
  show ?thesis
    unfolding Deliver_update[OF assms(2,3) c w]
    using w(2) c(2) by (cases "0 < change_due m") auto
qed

lemma returnsD:
  assumes "(case r of Some (Inr m) \<Rightarrow> P m | _ \<Rightarrow> False)"
  shows "\<exists>m. r = Some (Inr m) \<and> P m"
  using assms by (cases r) (auto split: sum.splits)

lemma name_cls:
  "name s = ''add_coins'' \<longleftrightarrow> cls s = AddCoinsState"
  "name s = ''deliver_product'' \<longleftrightarrow> cls s = DeliverProductState"
  "name s = ''waiting'' \<longleftrightarrow> cls s = WaitingState"
  "name s = ''count_change'' \<longleftrightarrow> cls s = CountChangeState"
  by (cases "cls s"; simp add: name_def)+

lemma rsplit_head_append:
  assumes "CHR ''_'' \<notin> set idx"
  shows "rsplit_head (p @ ''_'' @ idx) = p"
proof -
  have "dropWhile (\<lambda>c. c \<noteq> CHR ''_'') (rev idx @ CHR ''_'' # rev p) = CHR ''_'' # rev p"
    using assms by (auto simp: dropWhile_append3)
  then show ?thesis by (simp add: rsplit_head_def)
qed

lemma Exit_not_coin: "''Exit'' \<notin> fst ` set COINS"
  by (simp add: COINS_def)

lemma coin_value_Some: "map_of COINS c = Some (l, v) \<Longrightarrow> coin_value c = v"
  by (simp add: coin_value_def)

section \<open>The hardware button between two accesses\<close>

lemma fire_empty [simp]: "fire {} p m = m"
  by (simp add: fire_def)

lemma fire_fields [simp]:
  "state (fire F p m) = state m" "states (fire F p m) = states m"
  "amount (fire F p m) = amount m" "change_due (fire F p m) = change_due m"
  "stock (fire F p m) = stock m" "coin_values (fire F p m) = coin_values m"
  "selected_button_key (fire F p m) = selected_button_key m"
  "vend_successful (fire F p m) = vend_successful m"
  "hardware_present (fire F p m) = hardware_present m"
  by (simp_all add: fire_def wrapped_button_action_def)

lemma fire_unfired: "event (fire F p m) \<noteq> ''RETURN'' \<Longrightarrow> fire F p m = m"
  by (simp add: fire_def wrapped_button_action_def split: if_splits)

lemma fire_fired: "fire F p m \<noteq> m \<Longrightarrow> hardware_present m \<and> event (fire F p m) = ''RETURN''"
  by (simp add: fire_def wrapped_button_action_def split: if_splits)

lemma on_entry_at_empty: "on_entry_at {} s m = on_entry s m"
  by (cases "cls s") (simp_all add: on_entry_at_def on_entry_def)

lemma go_to_state_at_empty: "go_to_state_at {} m n = go_to_state m n"
  unfolding go_to_state_at_def go_to_state_def on_entry_at_empty by (rule refl)

lemma WaitingState_update_at_empty: "WaitingState_update_at {} m = WaitingState_update m"
  unfolding WaitingState_update_at_def WaitingState_update_def fire_empty
    go_to_state_at_empty Let_def
  by simp

lemma AddCoinsState_update_at_empty:
  "AddCoinsState_update_at {} s m = AddCoinsState_update s m"
  unfolding AddCoinsState_update_at_def AddCoinsState_update_def fire_empty
    on_entry_at_empty go_to_state_at_empty Let_def
  by (rule refl)

lemma State_update_at_empty: "State_update_at {} s m = State_update s m"
  unfolding State_update_at_def State_update_def WaitingState_update_at_empty
    AddCoinsState_update_at_empty DeliverProductState_update_at_def
    DeliverProductState_update_def CountChangeState_update_at_def
    CountChangeState_update_def go_to_state_at_empty
  by (rule refl)

lemma update_at_empty: "update_at {} m = update m"
  unfolding update_at_def update_def State_update_at_empty by (rule refl)

lemma machine_ok_same: "same a b \<Longrightarrow> machine_ok a = machine_ok b"
  by (simp add: same_def machine_ok_def registered_def)

lemma same_refl [simp]: "same a a"
  by (simp add: same_def)

lemma same_fire [simp]: "same (fire F p a) b = same a b"
  by (simp add: same_def)

lemma same_event [simp]: "same (a\<lparr>event := e\<rparr>) b = same a b"
  by (simp add: same_def)

lemma same_out [simp]: "same (a\<lparr>out := e\<rparr>) b = same a b"
  by (simp add: same_def)

lemma add_coin_RETURN: "add_coin m ''RETURN'' = Inl (KeyError ''RETURN'')"
  by (simp add: add_coin_def COINS_def)

lemma on_entry_at_plain:
  "cls s \<noteq> DeliverProductState \<Longrightarrow> on_entry_at F s x = on_entry s x"
  by (cases "cls s") (simp_all add: on_entry_at_def on_entry_def)

lemma go_to_state_at_plain:
  assumes "states m n = Some s" "cls s \<noteq> DeliverProductState"
  shows "go_to_state_at F m n = go_to_state m n"
  unfolding go_to_state_at_def go_to_state_def Let_def
  using assms by (cases "state m") (simp_all add: on_exit_def on_entry_at_plain)

lemma on_entry_same:
  "cls s \<noteq> DeliverProductState \<Longrightarrow> \<exists>m'. on_entry s m = Inr m' \<and> same m' m"
  by (cases "cls s") (simp_all add: on_entry_def)

lemma go_to_state_same:
  assumes "states m n = Some s" "cls s \<noteq> DeliverProductState"
  shows "\<exists>m'. go_to_state m n = Inr m' \<and> same m' (m\<lparr>state := Some s\<rparr>)"
proof -
  let ?x = "m\<lparr>state := Some s, out := out m @ exit_log m @ [Log_entering (name s)]\<rparr>"
  from on_entry_same[OF assms(2), of ?x] obtain m' where
    m': "on_entry s ?x = Inr m'" "same m' ?x" by blast
  have "same m' (m\<lparr>state := Some s\<rparr>)" using m'(2) by (simp add: same_def)
  then show ?thesis unfolding go_to_state_Some[OF assms(1)] using m'(1) by simp
qed

lemma go_to_state_at_deliver:
  assumes "states m ''deliver_product'' = Some d" "cls d = DeliverProductState"
  shows "go_to_state_at F m ''deliver_product'' =
           DeliverProductState_on_entry
             (fire F L234 (m\<lparr>state := Some d,
                out := out m @ exit_log m @ [Log_entering ''deliver_product'']\<rparr>))"
  unfolding go_to_state_at_def Let_def exit_log_def on_exit_def
  using assms by (cases "state m") (simp_all add: on_entry_at_def name_def)

lemma on_entry_dispensed_same:
  assumes "stock m (event m) = Some k" "0 < k" "map_of PRODUCTS (event m) = Some (pn, price)"
  shows "\<exists>m'. DeliverProductState_on_entry m = Inr m' \<and>
           same m' (m\<lparr>stock := (stock m)(event m \<mapsto> k - 1), change_due := amount m - price,
                       amount := 0, vend_successful := Some True\<rparr>)"
  unfolding on_entry_dispensed[OF assms] by (simp add: same_def)

lemma on_entry_failed_same:
  assumes "stock_get m (event m) 0 \<le> 0"
  shows "\<exists>m'. DeliverProductState_on_entry m = Inr m' \<and>
           same m' (m\<lparr>vend_successful := Some False, selected_button_key := None\<rparr>)"
  unfolding on_entry_failed[OF assms] by (simp add: same_def)

lemma machine_ok_event [simp]: "machine_ok (m\<lparr>event := e\<rparr>) = machine_ok m"
  by (simp add: machine_ok_def registered_def)

lemma machine_ok_out [simp]: "machine_ok (m\<lparr>out := e\<rparr>) = machine_ok m"
  by (simp add: machine_ok_def registered_def)

lemma machine_ok_fire [simp]: "machine_ok (fire F p m) = machine_ok m"
  by (simp add: machine_ok_def registered_def)

lemma machine_okD:
  assumes "machine_ok m"
  shows "registered m" "coin_values m = [200, 100, 25, 10, 5]"
    "\<And>p. p \<in> fst ` set PRODUCTS \<Longrightarrow> \<exists>n. stock m p = Some n"
    "\<And>p n. stock m p = Some n \<Longrightarrow> 0 \<le> n"
    "5 dvd amount m" "5 dvd change_due m"
    "vend_successful m = Some True \<Longrightarrow> selected_button_key m \<noteq> None"
    "\<exists>s. state m = Some s \<and> phase_ok (cls s) (amount m) (change_due m)"
    "\<And>p. p \<notin> fst ` set PRODUCTS \<Longrightarrow> stock m p = None"
  using assms unfolding machine_ok_def by (blast+)

text \<open>A machine that differs from a good one in phase and money only.\<close>

lemma machine_ok_phase:
  assumes "machine_ok m"
    and "states m' = states m" "coin_values m' = coin_values m" "stock m' = stock m"
    and "vend_successful m' = Some True \<Longrightarrow> selected_button_key m' \<noteq> None"
    and "state m' = Some s" "phase_ok (cls s) (amount m') (change_due m')"
    and "5 dvd amount m'" "5 dvd change_due m'"
  shows "machine_ok m'"
  using assms unfolding machine_ok_def registered_def by simp

lemma machine_ok_purchase:
  assumes "machine_ok m" "stock m k = Some n" "0 < n"
    and "states m' = states m" "coin_values m' = coin_values m"
    and "stock m' = (stock m)(k \<mapsto> n - 1)"
    and "selected_button_key m' \<noteq> None"
    and "state m' = Some d" "phase_ok (cls d) (amount m') (change_due m')"
    and "5 dvd amount m'" "5 dvd change_due m'"
  shows "machine_ok m'"
proof -
  have k: "k \<in> dom (stock m)" using assms(2) by blast
  have a: "dom (stock m') = fst ` set PRODUCTS"
    using assms(1) k unfolding machine_ok_def assms(6) by auto
  have b: "\<And>p j. stock m' p = Some j \<Longrightarrow> 0 \<le> j"
    using machine_okD(4)[OF assms(1)] assms(3,6) by (simp split: if_splits)
  show ?thesis
    unfolding machine_ok_def
    using a b assms(4,5,7-11) machine_okD(1,2)[OF assms(1)]
    by (simp add: registered_def)
qed

section \<open>What every run of the main program keeps\<close>

lemma ex_okI:
  "r = Some (Inr m') \<Longrightarrow> machine_ok m' \<Longrightarrow> hardware_present m' = h \<Longrightarrow>
   \<exists>m'. r = Some (Inr m') \<and> machine_ok m' \<and> hardware_present m' = h"
  by blast

lemma update_ok_Waiting:
  assumes "machine_ok m" "state m = Some s" "cls s = WaitingState"
  shows "\<exists>m'. update m = Some (Inr m') \<and> machine_ok m' \<and>
           hardware_present m' = hardware_present m"
proof -
  from machine_okD(8)[OF assms(1)] assms(2,3) have ph: "0 \<le> amount m" "change_due m = 0"
    by (simp_all add: phase_ok_def)
  from registeredD(2)[OF machine_okD(1)[OF assms(1)]] obtain a where
    a: "states m ''add_coins'' = Some a" "cls a = AddCoinsState" by blast
  show ?thesis
  proof (cases "event m \<in> fst ` set COINS")
    case True
    then obtain l v where lv: "map_of COINS (event m) = Some (l, v)"
      using in_COINS by blast
    have v: "0 < v" "5 dvd v" using map_of_COINS[OF lv] by simp_all
    show ?thesis
      by (rule ex_okI[OF Waiting_coin[OF assms(2,3) lv a]],
          rule machine_ok_phase[OF assms(1), where s = a])
         (use a v ph machine_okD(5,7)[OF assms(1)] in \<open>simp_all add: phase_ok_def\<close>)
  next
    case False
    show ?thesis
    proof (cases "event m = ''RETURN''")
      case True
      then show ?thesis unfolding Waiting_RETURN[OF assms(2,3) True] using assms(1) by simp
    next
      case F2: False
      show ?thesis unfolding Waiting_other[OF assms(2,3) False F2] using assms(1) by simp
    qed
  qed
qed

lemma update_ok_Deliver:
  assumes "machine_ok m" "state m = Some s" "cls s = DeliverProductState"
  shows "\<exists>m'. update m = Some (Inr m') \<and> machine_ok m' \<and>
           hardware_present m' = hardware_present m"
proof -
  from machine_okD(8)[OF assms(1)] assms(2,3)
  have ph: "(amount m = 0 \<and> 0 \<le> change_due m) \<or> (0 < amount m \<and> change_due m = 0)"
    by (simp add: phase_ok_def)
  from registeredD[OF machine_okD(1)[OF assms(1)]] obtain w c where
    w: "states m ''waiting'' = Some w" "cls w = WaitingState" and
    c: "states m ''count_change'' = Some c" "cls c = CountChangeState" by blast
  show ?thesis
  proof (cases "0 < change_due m")
    case True
    show ?thesis
      by (rule ex_okI[OF Deliver_update[OF assms(2,3) c w]], simp only: if_P[OF True],
          rule machine_ok_phase[OF assms(1), where s = c])
         (use c ph True machine_okD(5,6,7)[OF assms(1)] in \<open>simp_all add: phase_ok_def\<close>)
  next
    case False
    then have z: "change_due m = 0" "0 \<le> amount m" using ph by auto
    show ?thesis
      by (rule ex_okI[OF Deliver_update[OF assms(2,3) c w]], simp only: if_not_P[OF False],
          rule machine_ok_phase[OF assms(1), where s = w])
         (use w z machine_okD(5,7)[OF assms(1)] in \<open>simp_all add: phase_ok_def\<close>)
  qed
qed

lemma update_ok_CountChange:
  assumes "machine_ok m" "state m = Some s" "cls s = CountChangeState"
  shows "\<exists>m'. update m = Some (Inr m') \<and> machine_ok m' \<and>
           hardware_present m' = hardware_present m"
proof -
  from machine_okD(8)[OF assms(1)] assms(2,3) have ph: "amount m = 0" "0 \<le> change_due m"
    by (simp_all add: phase_ok_def)
  from registeredD[OF machine_okD(1)[OF assms(1)]] obtain w where
    w: "states m ''waiting'' = Some w" "cls w = WaitingState" by blast
  from for_coin_values_rest[OF ph(2)] obtain ms where
    loop0: "for_coin_values [200, 100, 25, 10, 5] (change_due m) (out m) =
              Some (change_due m mod 5, ms)" by blast
  have loop: "for_coin_values (coin_values m) (change_due m) (out m) = Some (0, ms)"
    unfolding machine_okD(2)[OF assms(1)] loop0 using machine_okD(6)[OF assms(1)] by simp
  show ?thesis
    by (rule ex_okI[OF CountChange_update[OF assms(2,3) loop w]], simp only: if_P[OF refl],
        rule machine_ok_phase[OF assms(1), where s = w])
       (use w ph machine_okD(7)[OF assms(1)] in \<open>simp_all add: phase_ok_def\<close>)
qed

lemma update_at_Deliver:
  assumes "registered m" "state m = Some s" "cls s = DeliverProductState"
  shows "update_at F m = update m"
proof -
  from registeredD[OF assms(1)] obtain w c where
    w: "states m ''waiting'' = Some w" "cls w = WaitingState" and
    c: "states m ''count_change'' = Some c" "cls c = CountChangeState" by blast
  have g: "go_to_state_at F m ''waiting'' = go_to_state m ''waiting''"
    "go_to_state_at F m ''count_change'' = go_to_state m ''count_change''"
    using go_to_state_at_plain[OF w(1)] go_to_state_at_plain[OF c(1)] w(2) c(2) by simp_all
  show ?thesis
    using assms(2,3)
    by (simp add: update_at_def update_def State_update_at_def State_update_def
        DeliverProductState_update_at_def DeliverProductState_update_def g)
qed

lemma update_at_CountChange:
  assumes "registered m" "state m = Some s" "cls s = CountChangeState"
  shows "update_at F m = update m"
proof -
  from registeredD[OF assms(1)] obtain w where
    w: "states m ''waiting'' = Some w" "cls w = WaitingState" by blast
  have g: "go_to_state_at F (m\<lparr>out := ms, change_due := 0\<rparr>) ''waiting'' =
           go_to_state (m\<lparr>out := ms, change_due := 0\<rparr>) ''waiting''" for ms
    by (rule go_to_state_at_plain[where s = w]) (use w in simp_all)
  show ?thesis
    using assms(2,3)
    unfolding update_at_def update_def State_update_at_def State_update_def
        CountChangeState_update_at_def CountChangeState_update_def Let_def g
    by simp
qed

lemma update_at_Waiting:
  assumes "machine_ok m" "state m = Some s" "cls s = WaitingState"
  shows "(hardware_present m \<and> update_at F m = Some (Inl (KeyError ''RETURN''))) \<or>
         (\<exists>m'. update_at F m = Some (Inr m') \<and> machine_ok m' \<and>
            hardware_present m' = hardware_present m)"
proof -
  have U: "update_at F m = Some (WaitingState_update_at F m)"
    "update m = Some (WaitingState_update m)"
    using assms(2,3) by (simp_all add: update_at_def State_update_at_def update_def
        State_update_def)
  from registeredD(2)[OF machine_okD(1)[OF assms(1)]] obtain a where
    a: "states m ''add_coins'' = Some a" "cls a = AddCoinsState" by blast
  show ?thesis
  proof (cases "event (fire F L190 m) \<in> fst ` set COINS")
    case True
    then have "event (fire F L190 m) \<noteq> ''RETURN''" using RETURN_not_coin by metis
    then have f1: "fire F L190 m = m" by (rule fire_unfired)
    with True have coin: "event m \<in> fst ` set COINS" by simp
    then obtain l v where lv: "map_of COINS (event m) = Some (l, v)"
      using in_COINS by blast
    show ?thesis
    proof (cases "fire F L191 m = m")
      case f2: True
      have g: "go_to_state_at F (m\<lparr>amount := amount m + v\<rparr>) ''add_coins'' =
               go_to_state (m\<lparr>amount := amount m + v\<rparr>) ''add_coins''"
        by (rule go_to_state_at_plain[where s = a]) (use a in simp_all)
      have "WaitingState_update_at F m = WaitingState_update m"
        using coin
        by (simp add: WaitingState_update_at_def WaitingState_update_def Let_def f1 f2
            add_coin_Some[OF lv] g)
      then have "update_at F m = update m" unfolding U by simp
      then show ?thesis using update_ok_Waiting[OF assms] by simp
    next
      case False
      from fire_fired[OF False] have hw: "hardware_present m"
        and e: "event (fire F L191 m) = ''RETURN''" by simp_all
      have "WaitingState_update_at F m = Inl (KeyError ''RETURN'')"
        using coin by (simp add: WaitingState_update_at_def Let_def f1 e add_coin_RETURN)
      then show ?thesis using hw U by simp
    qed
  next
    case False
    have "\<exists>m'. WaitingState_update_at F m = Inr m' \<and> same m' m"
      using False by (simp add: WaitingState_update_at_def Let_def)
    then obtain m' where m': "WaitingState_update_at F m = Inr m'" "same m' m" by blast
    from machine_ok_same[OF m'(2)] assms(1) have "machine_ok m'" by simp
    moreover have "hardware_present m' = hardware_present m" using m'(2) by (simp add: same_def)
    ultimately show ?thesis using U m'(1) by simp
  qed
qed

lemma rsplit_head_RETURN: "map_of PRODUCTS (rsplit_head ''RETURN'') = None"
  by (simp add: rsplit_head_def PRODUCTS_def)

lemma RETURN_not_product: "''RETURN'' \<notin> fst ` set PRODUCTS"
  by (simp add: PRODUCTS_def)

lemma go_to_deliver_at:
  assumes "states x ''deliver_product'' = Some d" "cls d = DeliverProductState"
    and "stock x (event x) = Some n" "0 < n" "map_of PRODUCTS (event x) = Some (pn, price)"
    and "stock x ''RETURN'' = None"
  shows "\<exists>m7. go_to_state_at F x ''deliver_product'' = Inr m7 \<and>
          (same m7 (x\<lparr>state := Some d, stock := (stock x)(event x \<mapsto> n - 1),
                       change_due := amount x - price, amount := 0,
                       vend_successful := Some True\<rparr>) \<or>
           (hardware_present x \<and>
            same m7 (x\<lparr>state := Some d, vend_successful := Some False,
                        selected_button_key := None\<rparr>)))"
proof -
  let ?z = "x\<lparr>state := Some d,
               out := out x @ exit_log x @ [Log_entering ''deliver_product'']\<rparr>"
  note G = go_to_state_at_deliver[OF assms(1,2), of F]
  show ?thesis
  proof (cases "fire F L234 ?z = ?z")
    case True
    have h: "stock ?z (event ?z) = Some n" "map_of PRODUCTS (event ?z) = Some (pn, price)"
      using assms(3,5) by simp_all
    from on_entry_dispensed_same[OF h(1) assms(4) h(2)] obtain m7 where
      m7: "DeliverProductState_on_entry ?z = Inr m7"
          "same m7 (?z\<lparr>stock := (stock ?z)(event ?z \<mapsto> n - 1),
                       change_due := amount ?z - price, amount := 0,
                       vend_successful := Some True\<rparr>)"
      by blast
    have "same m7 (x\<lparr>state := Some d, stock := (stock x)(event x \<mapsto> n - 1),
                       change_due := amount x - price, amount := 0,
                       vend_successful := Some True\<rparr>)"
      using m7(2) by (simp add: same_def)
    then show ?thesis unfolding G True using m7(1) by blast
  next
    case False
    let ?y = "fire F L234 ?z"
    from fire_fired[OF False] have hw: "hardware_present x" and e: "event ?y = ''RETURN''"
      by simp_all
    have "stock_get ?y (event ?y) 0 \<le> 0"
      unfolding e using assms(6) by (simp add: stock_get_def)
    from on_entry_failed_same[OF this] obtain m7 where
      m7: "DeliverProductState_on_entry ?y = Inr m7"
          "same m7 (?y\<lparr>vend_successful := Some False, selected_button_key := None\<rparr>)"
      by blast
    have "same m7 (x\<lparr>state := Some d, vend_successful := Some False,
                        selected_button_key := None\<rparr>)"
      using m7(2) by (simp add: same_def)
    then show ?thesis unfolding G using m7(1) hw by blast
  qed
qed

lemma update_at_AddCoins:
  assumes ok: "machine_ok m" and st: "state m = Some s" "cls s = AddCoinsState"
  shows "(hardware_present m \<and> update_at F m = Some (Inl (KeyError ''RETURN''))) \<or>
     (\<exists>m'. update_at F m = Some (Inr m') \<and> machine_ok m' \<and>
        hardware_present m' = hardware_present m \<and>
        (state m' = state m \<or>
         (state_name m' = Some ''count_change'' \<and> amount m' = 0 \<and>
          change_due m' = amount m) \<or>
         (state_name m' = Some ''deliver_product'' \<and> vend_successful m' = Some False \<and>
          amount m' = amount m \<and> change_due m' = change_due m) \<or>
         (state_name m' = Some ''deliver_product'' \<and> vend_successful m' = Some True \<and>
          amount m' = 0 \<and>
          (\<exists>pn price. map_of PRODUCTS (rsplit_head (event m)) = Some (pn, price) \<and>
             price \<le> amount m \<and> change_due m' = amount m - price))))"
    (is "?err \<or> ?good")
proof -
  from machine_okD(8)[OF ok] st have ph: "0 < amount m" "change_due m = 0"
    by (simp_all add: phase_ok_def)
  note five = machine_okD(5)[OF ok]
  from registeredD[OF machine_okD(1)[OF ok]] obtain c d where
    c: "states m ''count_change'' = Some c" "cls c = CountChangeState" and
    d: "states m ''deliver_product'' = Some d" "cls d = DeliverProductState" by blast
  have U: "update_at F m = Some (AddCoinsState_update_at F s m)"
    using st by (simp add: update_at_def State_update_at_def)
  have unchanged: ?good if "AddCoinsState_update_at F s m = Inr m'" "same m' m" for m'
  proof -
    have "machine_ok m'" using machine_ok_same[OF that(2)] ok by simp
    moreover have "state m' = state m" "hardware_present m' = hardware_present m"
      using that(2) by (simp_all add: same_def)
    ultimately show ?thesis using U that(1) by simp
  qed
  show ?thesis
  proof (cases "event (fire F L203 m) = ''RETURN''")
    case True
    let ?x = "(fire F L203 m)\<lparr>change_due := amount m, amount := 0\<rparr>"
    have sx: "states ?x ''count_change'' = Some c" using c by simp
    have nd: "cls c \<noteq> DeliverProductState" using c by simp
    note g = go_to_state_at_plain[OF sx nd, of F]
    from go_to_state_same[OF sx nd] obtain m7 where
      m7: "go_to_state ?x ''count_change'' = Inr m7" "same m7 (?x\<lparr>state := Some c\<rparr>)"
      by blast
    let ?m' = "(fire F L228 m7)\<lparr>event := ''''\<rparr>"
    have A: "AddCoinsState_update_at F s m = Inr ?m'"
      using True by (simp add: AddCoinsState_update_at_def Let_def g m7(1))
    have f: "state ?m' = Some c" "states ?m' = states m" "amount ?m' = 0"
      "change_due ?m' = amount m" "stock ?m' = stock m" "coin_values ?m' = coin_values m"
      "hardware_present ?m' = hardware_present m"
      "selected_button_key ?m' = selected_button_key m"
      "vend_successful ?m' = vend_successful m"
      using m7(2) by (simp_all add: same_def)
    have "machine_ok ?m'"
      by (rule machine_ok_phase[OF ok, where s = c])
         (use f c ph five machine_okD(7)[OF ok] in \<open>simp_all add: phase_ok_def\<close>)
    moreover have "state_name ?m' = Some ''count_change''"
      using f(1) c(2) by (simp add: state_name_def name_def)
    ultimately have ?good using f by (simp add: U A)
    then show ?thesis ..
  next
    case False
    then have f1: "fire F L203 m = m" by (rule fire_unfired)
    with False have nr: "event m \<noteq> ''RETURN''" by simp
    show ?thesis
    proof (cases "event (fire F L208 m) \<in> fst ` set COINS")
      case True
      then have "event (fire F L208 m) \<noteq> ''RETURN''" using RETURN_not_coin by metis
      then have f2: "fire F L208 m = m" by (rule fire_unfired)
      with True have coin: "event m \<in> fst ` set COINS" by simp
      then obtain l v where lv: "map_of COINS (event m) = Some (l, v)"
        using in_COINS by blast
      have v: "0 < v" "5 dvd v" using map_of_COINS[OF lv] by simp_all
      show ?thesis
      proof (cases "fire F L209 m = m")
        case f3: True
        have nd: "cls s \<noteq> DeliverProductState" using st(2) by simp
        have "\<exists>m'. AddCoinsState_update_at F s m = Inr m' \<and>
                same m' (m\<lparr>amount := amount m + v\<rparr>)"
          using coin nr
          by (simp add: AddCoinsState_update_at_def Let_def f1 f2 f3 add_coin_Some[OF lv]
              on_entry_at_plain[OF nd] on_entry_def st(2))
        then obtain m' where m': "AddCoinsState_update_at F s m = Inr m'"
          "same m' (m\<lparr>amount := amount m + v\<rparr>)" by blast
        have f: "state m' = Some s" "states m' = states m" "amount m' = amount m + v"
          "change_due m' = change_due m" "stock m' = stock m" "coin_values m' = coin_values m"
          "hardware_present m' = hardware_present m"
          "selected_button_key m' = selected_button_key m"
          "vend_successful m' = vend_successful m"
          using m'(2) st(1) by (simp_all add: same_def)
        have "machine_ok m'"
          by (rule machine_ok_phase[OF ok, where s = s])
             (use f st(2) v ph five machine_okD(6,7)[OF ok] in \<open>simp_all add: phase_ok_def\<close>)
        then have ?good using U m'(1) f st(1) by simp
        then show ?thesis ..
      next
        case False
        from fire_fired[OF False] have hw: "hardware_present m"
          and e: "event (fire F L209 m) = ''RETURN''" by simp_all
        have "AddCoinsState_update_at F s m = Inl (KeyError ''RETURN'')"
          using coin nr
          by (simp add: AddCoinsState_update_at_def Let_def f1 f2 e add_coin_RETURN)
        then have ?err using hw U by simp
        then show ?thesis ..
      qed
    next
      case nc: False
      let ?m3 = "fire F L212b (fire F L212a (fire F L208 m))"
      show ?thesis
      proof (cases "CHR ''_'' \<in> set (event ?m3)")
        case False
        have "\<exists>m'. AddCoinsState_update_at F s m = Inr m' \<and> same m' m"
          using nr nc False by (simp add: AddCoinsState_update_at_def Let_def f1)
        then show ?thesis using unchanged by blast
      next
        case True
        note e3 = underscore_event(1)[OF True]
        have a: "?m3 = fire F L212a (fire F L208 m)" using e3 by (rule fire_unfired)
        have e3a: "event (fire F L212a (fire F L208 m)) \<noteq> ''RETURN''" using e3 a by simp
        have b: "fire F L212a (fire F L208 m) = fire F L208 m" using e3a by (rule fire_unfired)
        have e3b: "event (fire F L208 m) \<noteq> ''RETURN''" using e3a b by simp
        have f2: "fire F L208 m = m" using e3b by (rule fire_unfired)
        have f3: "fire F L212a m = m" "fire F L212b m = m" using a b f2 by simp_all
        have us: "CHR ''_'' \<in> set (event m)" using True a b f2 by simp
        have ncm: "event m \<notin> fst ` set COINS" using nc f2 by simp
        show ?thesis
        proof (cases "map_of PRODUCTS (rsplit_head (event (fire F L213 m)))")
          case None
          have "\<exists>m'. AddCoinsState_update_at F s m = Inr m' \<and> same m' m"
            using nr ncm us None
            by (simp add: AddCoinsState_update_at_def Let_def f1 f2 f3)
          then show ?thesis using unchanged by blast
        next
          case (Some pp)
          then have "event (fire F L213 m) \<noteq> ''RETURN''"
            using rsplit_head_RETURN by auto
          then have f4: "fire F L213 m = m" by (rule fire_unfired)
          obtain pn price where
            pp: "map_of PRODUCTS (rsplit_head (event m)) = Some (pn, price)"
            using Some f4 by (cases pp) simp
          from map_of_PRODUCTS[OF pp] have price: "0 < price" "5 dvd price"
            and key: "rsplit_head (event m) \<in> fst ` set PRODUCTS" by simp_all
          from machine_okD(3)[OF ok key] obtain n where
            n: "stock m (rsplit_head (event m)) = Some n" by blast
          consider (empty) "n \<le> 0" | (poor) "0 < n" "amount m < price"
            | (buy) "0 < n" "price \<le> amount m"
            by linarith
          then show ?thesis
          proof cases
            case empty
            have "\<exists>m'. AddCoinsState_update_at F s m = Inr m' \<and> same m' m"
              using nr ncm us pp n empty
              by (simp add: AddCoinsState_update_at_def Let_def f1 f2 f3 f4)
            then show ?thesis using unchanged by blast
          next
            case poor
            have "\<exists>m'. AddCoinsState_update_at F s m = Inr m' \<and> same m' m"
              using nr ncm us pp n poor
              by (simp add: AddCoinsState_update_at_def Let_def f1 f2 f3 f4)
            then show ?thesis using unchanged by blast
          next
            case buy
            let ?pk = "rsplit_head (event m)"
            let ?k = "event (fire F L222 m)"
            let ?x = "(fire F L223 ((fire F L222 m)\<lparr>selected_button_key := Some ?k\<rparr>))
                        \<lparr>event := ?pk\<rparr>"
            have hx: "states ?x ''deliver_product'' = Some d" "stock ?x (event ?x) = Some n"
              "map_of PRODUCTS (event ?x) = Some (pn, price)" "stock ?x ''RETURN'' = None"
              using d n pp machine_okD(9)[OF ok RETURN_not_product] by simp_all
            from go_to_deliver_at[OF hx(1) d(2) hx(2) buy(1) hx(3,4), of F] obtain m7 where
              g: "go_to_state_at F ?x ''deliver_product'' = Inr m7" and
              alt: "same m7 (?x\<lparr>state := Some d, stock := (stock ?x)(event ?x \<mapsto> n - 1),
                       change_due := amount ?x - price, amount := 0,
                       vend_successful := Some True\<rparr>) \<or>
                    (hardware_present ?x \<and>
                     same m7 (?x\<lparr>state := Some d, vend_successful := Some False,
                        selected_button_key := None\<rparr>))"
              by blast
            let ?m' = "(fire F L228 m7)\<lparr>event := ''''\<rparr>"
            have A: "AddCoinsState_update_at F s m = Inr ?m'"
              using nr ncm us pp n buy
              by (simp add: AddCoinsState_update_at_def Let_def f1 f2 f3 f4 g)
            have sn: "state_name ?m' = Some ''deliver_product''"
              if "state m7 = Some d"
              using that d(2) by (simp add: state_name_def name_def)
            from alt show ?thesis
            proof
              assume sm: "same m7 (?x\<lparr>state := Some d,
                       stock := (stock ?x)(event ?x \<mapsto> n - 1),
                       change_due := amount ?x - price, amount := 0,
                       vend_successful := Some True\<rparr>)"
              have f: "state ?m' = Some d" "states ?m' = states m" "amount ?m' = 0"
                "change_due ?m' = amount m - price"
                "stock ?m' = (stock m)(?pk \<mapsto> n - 1)" "coin_values ?m' = coin_values m"
      "hardware_present ?m' = hardware_present m"
                "selected_button_key ?m' \<noteq> None"
                "vend_successful ?m' = Some True" "state m7 = Some d"
                using sm by (simp_all add: same_def)
              have "machine_ok ?m'"
                by (rule machine_ok_purchase[OF ok n buy(1), where d = d])
                   (use f d(2) buy price five in \<open>simp_all add: phase_ok_def\<close>)
              then have ?good using f sn pp buy(2) by (simp add: U A)
              then show ?thesis ..
            next
              assume "hardware_present ?x \<and>
                     same m7 (?x\<lparr>state := Some d, vend_successful := Some False,
                        selected_button_key := None\<rparr>)"
              then have sm: "same m7 (?x\<lparr>state := Some d, vend_successful := Some False,
                        selected_button_key := None\<rparr>)" by simp
              have f: "state ?m' = Some d" "states ?m' = states m" "amount ?m' = amount m"
                "change_due ?m' = change_due m"
                "stock ?m' = stock m" "coin_values ?m' = coin_values m"
      "hardware_present ?m' = hardware_present m"
                "vend_successful ?m' = Some False" "state m7 = Some d"
                using sm by (simp_all add: same_def)
              have "machine_ok ?m'"
                by (rule machine_ok_phase[OF ok, where s = d])
                   (use f d(2) ph five machine_okD(6)[OF ok] in
                     \<open>simp_all add: phase_ok_def\<close>)
              then have ?good using f sn by (simp add: U A)
              then show ?thesis ..
            qed
          qed
        qed
      qed
    qed
  qed
qed

lemma update_at_ok:
  assumes "machine_ok m"
  shows "(hardware_present m \<and> update_at F m = Some (Inl (KeyError ''RETURN''))) \<or>
         (\<exists>m'. update_at F m = Some (Inr m') \<and> machine_ok m' \<and>
            hardware_present m' = hardware_present m)"
proof -
  from machine_okD(8)[OF assms] obtain s where
    s: "state m = Some s" "phase_ok (cls s) (amount m) (change_due m)" by blast
  note reg = machine_okD(1)[OF assms]
  show ?thesis
  proof (cases "cls s")
    case State
    with s(2) show ?thesis by (simp add: phase_ok_def)
  next
    case WaitingState
    then show ?thesis using update_at_Waiting[OF assms s(1)] by blast
  next
    case AddCoinsState
    from update_at_AddCoins[OF assms s(1) AddCoinsState, of F] show ?thesis by blast
  next
    case DeliverProductState
    show ?thesis
      unfolding update_at_Deliver[OF reg s(1) DeliverProductState]
      using update_ok_Deliver[OF assms s(1) DeliverProductState] by blast
  next
    case CountChangeState
    show ?thesis
      unfolding update_at_CountChange[OF reg s(1) CountChangeState]
      using update_ok_CountChange[OF assms s(1) CountChangeState] by blast
  qed
qed

text \<open>The machine as \<open>update\<close> finds it in a pass of the main loop.\<close>

lemma tick_eq:
  "tick F ev m =
     (case update_at F (if event (fire F L362 m) = ''RETURN'' then fire F L362 m
                        else (fire F L367 (fire F L362 m))\<lparr>event := ev\<rparr>) of
           None \<Rightarrow> None
         | Some (Inl e) \<Rightarrow> Some (Inl e)
         | Some (Inr v2) \<Rightarrow>
             (case state v2 of
                None \<Rightarrow> Some (Inl (AttributeError ''name''))
              | Some s \<Rightarrow>
                  if name s \<noteq> ''deliver_product'' \<and> vend_successful v2 = Some True then
                    (case selected_button_key v2 of
                       None \<Rightarrow> Some (Inl (AttributeError ''selected_button_key''))
                     | Some k \<Rightarrow>
                         Some (Inr ((fire F L381
                                      (v2\<lparr>out := out v2 @ [Frame_hidden k],
                                          vend_successful := Some False,
                                          selected_button_key := None\<rparr>))
                                    \<lparr>event := ''''\<rparr>)))
                  else Some (Inr ((fire F L381 v2)\<lparr>event := ''''\<rparr>))))"
  unfolding tick_def Let_def ..

lemma machine_ok_hidden:
  "machine_ok m \<Longrightarrow>
   machine_ok (m\<lparr>vend_successful := Some False, selected_button_key := None\<rparr>)"
  unfolding machine_ok_def registered_def by simp

lemma tick_ok:
  assumes "machine_ok m"
  shows "(hardware_present m \<and> tick F ev m = Some (Inl (KeyError ''RETURN''))) \<or>
         (\<exists>m'. tick F ev m = Some (Inr m') \<and> machine_ok m' \<and>
            hardware_present m' = hardware_present m)"
proof -
  define v1 where "v1 = (if event (fire F L362 m) = ''RETURN'' then fire F L362 m
                        else (fire F L367 (fire F L362 m))\<lparr>event := ev\<rparr>)"
  have v1: "machine_ok v1" "hardware_present v1 = hardware_present m"
    using assms by (simp_all add: v1_def)
  from update_at_ok[OF v1(1), of F] show ?thesis
  proof
    assume "hardware_present v1 \<and> update_at F v1 = Some (Inl (KeyError ''RETURN''))"
    then show ?thesis unfolding tick_eq v1_def[symmetric] using v1(2) by simp
  next
    assume "\<exists>m'. update_at F v1 = Some (Inr m') \<and> machine_ok m' \<and>
            hardware_present m' = hardware_present v1"
    then obtain v2 where v2: "update_at F v1 = Some (Inr v2)" "machine_ok v2"
      "hardware_present v2 = hardware_present m" using v1(2) by auto
    from machine_okD(8)[OF v2(2)] obtain s where s: "state v2 = Some s" by blast
    show ?thesis
    proof (cases "name s \<noteq> ''deliver_product'' \<and> vend_successful v2 = Some True")
      case True
      with machine_okD(7)[OF v2(2)] obtain k where k: "selected_button_key v2 = Some k"
        by blast
      let ?m' = "(fire F L381 (v2\<lparr>out := out v2 @ [Frame_hidden k],
               vend_successful := Some False, selected_button_key := None\<rparr>))\<lparr>event := ''''\<rparr>"
      have t: "tick F ev m = Some (Inr ?m')"
        using True v2(1) s k unfolding tick_eq v1_def[symmetric] by simp
      have "machine_ok ?m'" using v2(2) unfolding machine_ok_def registered_def by simp
      moreover have "hardware_present ?m' = hardware_present m" using v2(3) by simp
      ultimately show ?thesis using t by blast
    next
      case False
      have t: "tick F ev m = Some (Inr ((fire F L381 v2)\<lparr>event := ''''\<rparr>))"
        using False v2(1) s unfolding tick_eq v1_def[symmetric] by auto
      show ?thesis using t v2(2,3) by simp
    qed
  qed
qed

lemma main_loop_ok:
  "machine_ok m \<Longrightarrow>
   (hardware_present m \<and> main_loop passes m = Some (Inl (KeyError ''RETURN''))) \<or>
   (\<exists>m'. main_loop passes m = Some (Inr m') \<and> machine_ok m' \<and>
      hardware_present m' = hardware_present m)"
proof (induction passes arbitrary: m)
  case Nil
  then show ?case by simp
next
  case (Cons p passes)
  obtain F ev where p: "p = (F, ev)" by (cases p)
  show ?case
  proof (cases "ev = ''Exit''")
    case True
    then show ?thesis using p Cons.prems by simp
  next
    case False
    from tick_ok[OF Cons.prems, of F ev] show ?thesis
    proof
      assume "hardware_present m \<and> tick F ev m = Some (Inl (KeyError ''RETURN''))"
      then show ?thesis using p False by simp
    next
      assume "\<exists>m'. tick F ev m = Some (Inr m') \<and> machine_ok m' \<and>
            hardware_present m' = hardware_present m"
      then obtain v where v: "tick F ev m = Some (Inr v)" "machine_ok v"
        "hardware_present v = hardware_present m" by blast
      from Cons.IH[OF v(2)] show ?thesis using p False v(1,3) by simp
    qed
  qed
qed

lemma main_setup_ok: "\<exists>m. main_setup hw = Inr m \<and> machine_ok m \<and> hardware_present m = hw"
  unfolding main_setup_eq
  by (simp add: machine_ok_def registered_def phase_ok_def INITIAL_STOCK_def PRODUCTS_def)

lemma run_ok:
  "(hw \<and> run hw passes = Some (Inl (KeyError ''RETURN''))) \<or>
   (\<exists>m. run hw passes = Some (Inr m) \<and> machine_ok m \<and> hardware_present m = hw)"
proof -
  from main_setup_ok obtain m0 where
    m0: "main_setup hw = Inr m0" "machine_ok m0" "hardware_present m0 = hw" by blast
  from main_loop_ok[OF m0(2), of passes] show ?thesis by (simp add: run_def m0(1,3))
qed

lemma machine_ok_nonnegative: "machine_ok m \<Longrightarrow> nonnegative m"
proof -
  assume ok: "machine_ok m"
  from machine_okD(8)[OF ok] obtain s where
    "phase_ok (cls s) (amount m) (change_due m)" by blast
  then have "0 \<le> amount m \<and> 0 \<le> change_due m"
    by (cases "cls s") (auto simp: phase_ok_def)
  moreover have "\<exists>n. stock m p = Some n \<and> 0 \<le> n" if "p \<in> fst ` set PRODUCTS" for p
    using machine_okD(3)[OF ok that] machine_okD(4)[OF ok] by blast
  ultimately show ?thesis unfolding nonnegative_def by blast
qed

section \<open>Passes of the main loop\<close>

lemma tick_fields:
  assumes "tick F ev m = Some (Inr m')"
  shows "\<exists>v2. update_at F (if event (fire F L362 m) = ''RETURN'' then fire F L362 m
                        else (fire F L367 (fire F L362 m))\<lparr>event := ev\<rparr>) = Some (Inr v2) \<and>
           state m' = state v2 \<and> amount m' = amount v2 \<and> change_due m' = change_due v2 \<and>
           stock m' = stock v2 \<and>
           (state_name v2 = Some ''deliver_product'' \<longrightarrow>
              vend_successful m' = vend_successful v2)"
proof -
  define v1 where "v1 = (if event (fire F L362 m) = ''RETURN'' then fire F L362 m
                        else (fire F L367 (fire F L362 m))\<lparr>event := ev\<rparr>)"
  note t = tick_eq[of F ev m, folded v1_def]
  from assms obtain v2 where v2: "update_at F v1 = Some (Inr v2)"
    unfolding t by (cases "update_at F v1") (auto split: sum.splits)
  from assms have "state m' = state v2 \<and> amount m' = amount v2 \<and>
      change_due m' = change_due v2 \<and> stock m' = stock v2 \<and>
      (state_name v2 = Some ''deliver_product'' \<longrightarrow> vend_successful m' = vend_successful v2)"
    unfolding t v2 by (auto simp: state_name_def split: option.splits if_splits)
  with v2 show ?thesis unfolding v1_def by blast
qed

lemma tick_quiet:
  "tick {} ev m =
     (case update (if event m = ''RETURN'' then m else m\<lparr>event := ev\<rparr>) of
           None \<Rightarrow> None
         | Some (Inl e) \<Rightarrow> Some (Inl e)
         | Some (Inr v2) \<Rightarrow>
             (case state v2 of
                None \<Rightarrow> Some (Inl (AttributeError ''name''))
              | Some s \<Rightarrow>
                  if name s \<noteq> ''deliver_product'' \<and> vend_successful v2 = Some True then
                    (case selected_button_key v2 of
                       None \<Rightarrow> Some (Inl (AttributeError ''selected_button_key''))
                     | Some k \<Rightarrow>
                         Some (Inr (v2\<lparr>out := out v2 @ [Frame_hidden k],
                                          vend_successful := Some False,
                                          selected_button_key := None,
                                          event := ''''\<rparr>)))
                  else Some (Inr (v2\<lparr>event := ''''\<rparr>))))"
  unfolding tick_eq fire_empty update_at_empty ..

lemma tick_plain:
  assumes "event m \<noteq> ''RETURN''" "update (m\<lparr>event := ev\<rparr>) = Some (Inr v2)"
    and "state v2 = Some s2"
    and "vend_successful v2 \<noteq> Some True \<or> name s2 = ''deliver_product''"
  shows "tick {} ev m = Some (Inr (v2\<lparr>event := ''''\<rparr>))"
  using assms by (auto simp: tick_quiet)

lemma tick_hide:
  assumes "event m \<noteq> ''RETURN''" "update (m\<lparr>event := ev\<rparr>) = Some (Inr v2)"
    and "state v2 = Some s2" "name s2 \<noteq> ''deliver_product''"
    and "vend_successful v2 = Some True" "selected_button_key v2 = Some k"
  shows "tick {} ev m = Some (Inr (v2\<lparr>out := out v2 @ [Frame_hidden k],
           vend_successful := Some False, selected_button_key := None, event := ''''\<rparr>))"
  using assms by (simp add: tick_quiet)

lemma tick_Waiting_coin:
  assumes "state m = Some s" "cls s = WaitingState" "event m \<noteq> ''RETURN''"
    and "vend_successful m \<noteq> Some True" "c \<in> fst ` set COINS" "registered m"
  shows "\<exists>m' a. tick {} c m = Some (Inr m') \<and> state m' = Some a \<and> cls a = AddCoinsState \<and>
           states m' = states m \<and> stock m' = stock m \<and>
           vend_successful m' = vend_successful m \<and> event m' = '''' \<and>
           amount m' = amount m + coin_value c"
proof -
  from in_COINS[OF assms(5)] obtain l v where lv: "map_of COINS c = Some (l, v)" by blast
  from registeredD(2)[OF assms(6)] obtain a where
    a: "states m ''add_coins'' = Some a" "cls a = AddCoinsState" by blast
  let ?v1 = "m\<lparr>event := c\<rparr>"
  have h: "state ?v1 = Some s" "map_of COINS (event ?v1) = Some (l, v)"
    "states ?v1 ''add_coins'' = Some a"
    using assms(1) lv a(1) by simp_all
  note u = Waiting_coin[OF h(1) assms(2) h(2,3) a(2)]
  have t: "tick {} c m = Some (Inr (?v1\<lparr>amount := amount ?v1 + v, state := Some a,
           out := out ?v1 @ [Log_exiting ''waiting'', Log_entering ''add_coins'',
                           Print_balance (amount ?v1 + v)]\<rparr>\<lparr>event := ''''\<rparr>))"
    by (rule tick_plain[OF assms(3) u, where ?s2.0 = a]) (use assms(4) in simp_all)
  show ?thesis
    unfolding t using a(2) coin_value_Some[OF lv] by simp
qed

lemma tick_AddCoins_coin:
  assumes "state m = Some a" "cls a = AddCoinsState" "event m \<noteq> ''RETURN''"
    and "vend_successful m \<noteq> Some True" "c \<in> fst ` set COINS"
  shows "\<exists>m'. tick {} c m = Some (Inr m') \<and> state m' = state m \<and>
           states m' = states m \<and> stock m' = stock m \<and>
           vend_successful m' = vend_successful m \<and> event m' = '''' \<and>
           amount m' = amount m + coin_value c"
proof -
  from in_COINS[OF assms(5)] obtain l v where lv: "map_of COINS c = Some (l, v)" by blast
  let ?v1 = "m\<lparr>event := c\<rparr>"
  have h: "state ?v1 = Some a" "map_of COINS (event ?v1) = Some (l, v)"
    using assms(1) lv by simp_all
  note u = AddCoins_coin[OF h(1) assms(2) h(2)]
  have t: "tick {} c m = Some (Inr (?v1\<lparr>amount := amount ?v1 + v,
           out := out ?v1 @ [Print_balance (amount ?v1 + v)], event := ''''\<rparr>\<lparr>event := ''''\<rparr>))"
    by (rule tick_plain[OF assms(3) u, where ?s2.0 = a]) (use assms(1,4) in simp_all)
  show ?thesis
    unfolding t using assms(1) coin_value_Some[OF lv] by simp
qed

lemma main_loop_coins:
  assumes "state m = Some a" "cls a = AddCoinsState" "event m \<noteq> ''RETURN''"
    and "vend_successful m \<noteq> Some True" "set cs \<subseteq> fst ` set COINS"
  shows "\<exists>m'. main_loop (map (Pair {}) cs @ rest) m = main_loop rest m' \<and>
           state m' = state m \<and>
           states m' = states m \<and> stock m' = stock m \<and>
           vend_successful m' = vend_successful m \<and> event m' \<noteq> ''RETURN'' \<and>
           amount m' = amount m + sum_list (map coin_value cs)"
  using assms
proof (induction cs arbitrary: m)
  case Nil
  then show ?case by auto
next
  case (Cons c cs)
  have c: "c \<in> fst ` set COINS" and cs: "set cs \<subseteq> fst ` set COINS"
    using Cons.prems(5) by simp_all
  then have ne: "c \<noteq> ''Exit''" using Exit_not_coin by metis
  from tick_AddCoins_coin[OF Cons.prems(1-4) c] obtain m1 where
    m1: "tick {} c m = Some (Inr m1)" "state m1 = state m" "states m1 = states m"
        "stock m1 = stock m" "vend_successful m1 = vend_successful m" "event m1 = ''''"
        "amount m1 = amount m + coin_value c"
    by blast
  have p: "state m1 = Some a" "event m1 \<noteq> ''RETURN''" "vend_successful m1 \<noteq> Some True"
    using m1 Cons.prems by simp_all
  from Cons.IH[OF p(1) Cons.prems(2) p(2,3) cs] obtain m' where
    m': "main_loop (map (Pair {}) cs @ rest) m1 = main_loop rest m'" "state m' = state m1"
        "states m' = states m1" "stock m' = stock m1"
        "vend_successful m' = vend_successful m1" "event m' \<noteq> ''RETURN''"
        "amount m' = amount m1 + sum_list (map coin_value cs)"
    by blast
  have "main_loop (map (Pair {}) (c # cs) @ rest) m = main_loop rest m'"
    using ne m1(1) m'(1) by simp
  then show ?case using m1 m' by auto
qed

lemma tick_purchase:
  assumes "state m = Some a" "cls a = AddCoinsState" "event m \<noteq> ''RETURN''"
    and "registered m" "CHR ''_'' \<notin> set idx"
    and "map_of PRODUCTS p = Some (pn, price)" "stock m p = Some n" "0 < n"
    and "price \<le> amount m"
  shows "\<exists>m' d. tick {} (p @ ''_'' @ idx) m = Some (Inr m') \<and> state m' = Some d \<and>
           cls d = DeliverProductState \<and> states m' = states m \<and>
           stock m' = (stock m)(p \<mapsto> n - 1) \<and> amount m' = 0 \<and>
           change_due m' = amount m - price \<and> vend_successful m' = Some True \<and>
           selected_button_key m' = Some (p @ ''_'' @ idx) \<and> event m' = ''''"
proof -
  from registeredD(3)[OF assms(4)] obtain d where
    d: "states m ''deliver_product'' = Some d" "cls d = DeliverProductState" by blast
  let ?sel = "p @ ''_'' @ idx"
  let ?v1 = "m\<lparr>event := ?sel\<rparr>"
  have k: "rsplit_head (event ?v1) = p" using rsplit_head_append[OF assms(5)] by simp
  have h: "state ?v1 = Some a" "CHR ''_'' \<in> set (event ?v1)"
    "map_of PRODUCTS (rsplit_head (event ?v1)) = Some (pn, price)"
    "stock ?v1 (rsplit_head (event ?v1)) = Some n" "price \<le> amount ?v1"
    "states ?v1 ''deliver_product'' = Some d"
    unfolding k using assms d by simp_all
  note u = AddCoins_purchase[OF h(1) assms(2) h(2,3,4) assms(8) h(5,6) d(2)]
  have nd: "name d = ''deliver_product''" by (simp add: name_def d(2))
  obtain v2 where v2: "update ?v1 = Some (Inr v2)" "state v2 = Some d"
    "states v2 = states m" "stock v2 = (stock m)(p \<mapsto> n - 1)" "amount v2 = 0"
    "change_due v2 = amount m - price" "vend_successful v2 = Some True"
    "selected_button_key v2 = Some ?sel"
    unfolding u k by simp
  have t: "tick {} ?sel m = Some (Inr (v2\<lparr>event := ''''\<rparr>))"
    by (rule tick_plain[OF assms(3) v2(1,2)]) (simp add: nd)
  show ?thesis
    unfolding t using d(2) v2 by simp
qed

lemma tick_leave_deliver:
  assumes "state m = Some d" "cls d = DeliverProductState" "event m \<noteq> ''RETURN''"
    and "registered m" "change_due m \<le> 0"
    and "vend_successful m = Some True" "selected_button_key m = Some k"
  shows "\<exists>m'. tick {} e m = Some (Inr m') \<and> state_name m' = Some ''waiting'' \<and>
           amount m' = amount m \<and> change_due m' = change_due m \<and> stock m' = stock m"
proof -
  from registeredD[OF assms(4)] obtain w c where
    w: "states m ''waiting'' = Some w" "cls w = WaitingState" and
    c: "states m ''count_change'' = Some c" "cls c = CountChangeState" by blast
  let ?v1 = "m\<lparr>event := e\<rparr>"
  let ?v2 = "?v1\<lparr>state := Some w,
                 out := out ?v1 @ [Log_exiting ''deliver_product'', Log_entering ''waiting'',
                                  Print_waiting]\<rparr>"
  have h: "state ?v1 = Some d" "states ?v1 ''count_change'' = Some c"
    "states ?v1 ''waiting'' = Some w" "\<not> 0 < change_due ?v1"
    using assms w c by simp_all
  have u: "update ?v1 = Some (Inr ?v2)"
    unfolding Deliver_update[OF h(1) assms(2) h(2) c(2) h(3) w(2)] if_not_P[OF h(4)] ..
  have nw: "name w \<noteq> ''deliver_product''" by (simp add: name_def w(2))
  have p: "state ?v2 = Some w" "vend_successful ?v2 = Some True"
    "selected_button_key ?v2 = Some k"
    using assms by simp_all
  note t = tick_hide[OF assms(3) u p(1) nw p(2,3)]
  show ?thesis
    unfolding t by (simp add: state_name_def name_def w(2))
qed

lemma selection_not_Exit: "p @ ''_'' @ idx \<noteq> ''Exit''"
proof
  assume e: "p @ ''_'' @ idx = ''Exit''"
  have "CHR ''_'' \<in> set (p @ ''_'' @ idx)" by simp
  then have "CHR ''_'' \<in> set ''Exit''" unfolding e .
  then show False by simp
qed

section \<open>The claims\<close>

text \<open>
  Claim C4. In every state the main program reaches, \<open>amount\<close> (the balance in cents)
  and \<open>change_due\<close> are at least 0 and every product has a stock count that is at least 0
  (\<open>nonnegative\<close>), and no event handled by any state changes that. The program is run from
  its start on any passes of the main loop, with or without the hardware, the button being
  pressed at any points of any pass. Every run returns. It ends in the \<open>KeyError\<close> of
  \<open>COINS['RETURN']\<close>, which needs the hardware (the button is pressed between the test
  \<open>event in COINS\<close> and the call \<open>add_coin(event)\<close>, lines 190 and 191, 208 and 209),
  or it leaves a machine within the bounds; and from that machine one more \<open>update\<close>, on
  any event and with the button pressed at any points, raises that same error or again
  leaves a machine within the bounds.
\<close>

theorem C4_never_negative:
  "(hw \<and> run hw passes = Some (Inl (KeyError ''RETURN''))) \<or>
   (\<exists>m. run hw passes = Some (Inr m) \<and> nonnegative m \<and>
      (\<forall>F e. (hw \<and> update_at F (m\<lparr>event := e\<rparr>) = Some (Inl (KeyError ''RETURN''))) \<or>
             (\<exists>m'. update_at F (m\<lparr>event := e\<rparr>) = Some (Inr m') \<and> nonnegative m')))"
proof -
  from run_ok[of hw passes] show ?thesis
  proof
    assume "hw \<and> run hw passes = Some (Inl (KeyError ''RETURN''))"
    then show ?thesis ..
  next
    assume "\<exists>m. run hw passes = Some (Inr m) \<and> machine_ok m \<and> hardware_present m = hw"
    then obtain m where m: "run hw passes = Some (Inr m)" "machine_ok m"
      "hardware_present m = hw" by blast
    have "(hw \<and> update_at F (m\<lparr>event := e\<rparr>) = Some (Inl (KeyError ''RETURN''))) \<or>
          (\<exists>m'. update_at F (m\<lparr>event := e\<rparr>) = Some (Inr m') \<and> nonnegative m')" for F e
    proof -
      have "machine_ok (m\<lparr>event := e\<rparr>)" using m(2) by simp
      from update_at_ok[OF this, of F] show ?thesis
        using m(3) machine_ok_nonnegative by auto
    qed
    with m(1) machine_ok_nonnegative[OF m(2)] show ?thesis by blast
  qed
qed

theorem C4_never_negative_witness:
  "(case run True [({}, ''100''), ({L234}, ''cap_0''), ({}, ''x'')] of
      Some (Inr m) \<Rightarrow> state_name m = Some ''waiting'' \<and> amount m = 100 \<and>
                       stock m ''cap'' = Some 4 \<and> nonnegative m
    | _ \<Rightarrow> False) \<and>
   (case run True [({L191}, ''100'')] of
      Some (Inl e) \<Rightarrow> e = KeyError ''RETURN''
    | _ \<Rightarrow> False)"
proof -
  let ?ps = "[({}, ''100''), ({L234}, ''cap_0''), ({}, ''x'')]"
  have e: "(case run True ?ps of
      Some (Inr m) \<Rightarrow> state_name m = Some ''waiting'' \<and> amount m = 100 \<and>
                       stock m ''cap'' = Some 4
    | _ \<Rightarrow> False)"
    by code_simp
  have k: "(case run True [({L191}, ''100'')] of
      Some (Inl e) \<Rightarrow> e = KeyError ''RETURN''
    | _ \<Rightarrow> False)"
    by code_simp
  from returnsD[OF e] obtain m where m: "run True ?ps = Some (Inr m)"
    "state_name m = Some ''waiting''" "amount m = 100" "stock m ''cap'' = Some 4" by blast
  from C4_never_negative[of True ?ps] m(1) have "nonnegative m" by auto
  with m k show ?thesis by simp
qed

text \<open>
  Claim C6, as amended. One \<open>update\<close> in \<open>count_change\<close> (states registered, coin values
  as \<open>__init__\<close> computes them) returns, raises nothing and sets \<open>change_due\<close> to 0 for
  every value of \<open>change_due\<close>. It goes to \<open>waiting\<close> when that value is a non-negative
  multiple of 5, and only then: otherwise the loops leave a remainder that is not 0, the
  test \<open>remaining_change == 0\<close> fails and the machine stays in \<open>count_change\<close>. As the
  claim is stated (every value, unconditionally) it fails at \<open>change_due = 3\<close>.
\<close>

theorem C6_count_change_update:
  assumes "state m = Some s" "cls s = CountChangeState" "registered m"
    and "coin_values m = coin_values (VendingMachine_init hw)"
  shows "\<exists>m'. update m = Some (Inr m') \<and> change_due m' = 0 \<and>
          (if 0 \<le> change_due m \<and> 5 dvd change_due m
           then state_name m' = Some ''waiting'' else state m' = state m)"
  by (rule update_CountChange_any[OF assms(1-3)]) (simp add: assms(4) coin_values_init)

theorem C6_count_change_update_witness:
  "(case update (fixture\<lparr>state := Some (Obj CountChangeState 3), change_due := 175\<rparr>) of
      Some (Inr m') \<Rightarrow> change_due m' = 0 \<and> state_name m' = Some ''waiting''
    | _ \<Rightarrow> False) \<and>
   (case update (fixture\<lparr>state := Some (Obj CountChangeState 3), change_due := 3\<rparr>) of
      Some (Inr m') \<Rightarrow> change_due m' = 0 \<and> state m' = Some (Obj CountChangeState 3)
    | _ \<Rightarrow> False)"
proof -
  let ?a = "fixture\<lparr>state := Some (Obj CountChangeState 3), change_due := 175\<rparr>"
  let ?b = "fixture\<lparr>state := Some (Obj CountChangeState 3), change_due := 3\<rparr>"
  have a: "state ?a = Some (Obj CountChangeState 3)" "registered ?a"
          "coin_values ?a = coin_values (VendingMachine_init False)"
    by (simp_all add: registered_def fixture_def coin_values_init)
  have b: "state ?b = Some (Obj CountChangeState 3)" "registered ?b"
          "coin_values ?b = coin_values (VendingMachine_init False)"
    by (simp_all add: registered_def fixture_def coin_values_init)
  have c: "cls (Obj CountChangeState 3) = CountChangeState" by simp
  from C6_count_change_update[OF a(1) c a(2,3)] obtain ma where
    ma: "update ?a = Some (Inr ma)" "change_due ma = 0" "state_name ma = Some ''waiting''"
    by auto
  from C6_count_change_update[OF b(1) c b(2,3)] obtain mb where
    mb: "update ?b = Some (Inr mb)" "change_due mb = 0" "state mb = Some (Obj CountChangeState 3)"
    by auto
  show ?thesis
    by (simp only: ma mb option.case sum.case)
qed

theorem C6_count_change_update_counterexample:
  "(case update (fixture\<lparr>state := Some (Obj CountChangeState 3), change_due := 3\<rparr>) of
      Some (Inr m') \<Rightarrow> state_name m' = Some ''count_change'' \<and> change_due m' = 0
    | _ \<Rightarrow> False)"
  by code_simp

text \<open>
  Claim C1. With the coin values \<open>__init__\<close> computes, which are 200, 100, 25, 10, 5 in
  this order, and \<open>change_due\<close> a non-negative multiple of 5, the loops of
  \<open>CountChangeState.update\<close> return with remainder 0. They print one
  "Returning d cents coin" per coin, for each d in that order as many times as d fits into
  what remains (\<open>remaining div d\<close>, the while loop), and the values of the coins sum to
  \<open>change_due\<close> as it was on entry. The update then sets \<open>change_due\<close> to 0 and calls
  \<open>go_to_state('waiting')\<close>.
\<close>

theorem C1_change_sum:
  assumes "coin_values m = coin_values (VendingMachine_init hw)"
    and "0 \<le> change_due m" "5 dvd change_due m"
  shows "let c = change_due m;
             coins = replicate (nat (c div 200)) 200 @
                     replicate (nat (c mod 200 div 100)) 100 @
                     replicate (nat (c mod 200 mod 100 div 25)) 25 @
                     replicate (nat (c mod 200 mod 100 mod 25 div 10)) 10 @
                     replicate (nat (c mod 200 mod 100 mod 25 mod 10 div 5)) 5
         in coin_values m = [200, 100, 25, 10, 5] \<and>
            for_coin_values (coin_values m) c (out m) =
              Some (0, out m @ map Print_returning coins) \<and>
            sum_list coins = c \<and>
            CountChangeState_update m =
              Some (go_to_state (m\<lparr>out := out m @ map Print_returning coins, change_due := 0\<rparr>)
                      ''waiting'')"
proof -
  have z: "change_due m mod 200 mod 100 mod 25 mod 10 mod 5 = 0"
    unfolding mod_chain using assms(3) by (rule dvd_imp_mod_0)
  have cv: "coin_values m = [200, 100, 25, 10, 5]"
    unfolding assms(1) by (rule coin_values_init)
  note loop = for_coin_values_nonneg[OF assms(2), of "out m", unfolded z, folded cv]
  note total = greedy_sum[OF assms(2), unfolded z diff_0_right]
  have upd: "CountChangeState_update m =
      Some (go_to_state (m\<lparr>out := out m @ map Print_returning
                  (replicate (nat (change_due m div 200)) 200 @
                   replicate (nat (change_due m mod 200 div 100)) 100 @
                   replicate (nat (change_due m mod 200 mod 100 div 25)) 25 @
                   replicate (nat (change_due m mod 200 mod 100 mod 25 div 10)) 10 @
                   replicate (nat (change_due m mod 200 mod 100 mod 25 mod 10 div 5)) 5),
                 change_due := 0\<rparr>) ''waiting'')"
    unfolding CountChangeState_update_def loop option.case prod.case Let_def if_P[OF refl] ..
  show ?thesis
    unfolding Let_def using cv loop total upd by blast
qed

theorem C1_change_sum_witness:
  "coin_values (fixture\<lparr>change_due := 175\<rparr>) = coin_values (VendingMachine_init False) \<and>
   (0::int) \<le> 175 \<and> (5::int) dvd 175 \<and>
   for_coin_values (coin_values (fixture\<lparr>change_due := 175\<rparr>)) 175 (out fixture) =
     Some (0, out fixture @ map Print_returning [100, 25, 25, 25]) \<and>
   sum_list [100, 25, 25, 25] = (175::int)"
proof -
  let ?m = "fixture\<lparr>change_due := 175\<rparr>"
  have h: "coin_values ?m = coin_values (VendingMachine_init False)"
          "0 \<le> change_due ?m" "5 dvd change_due ?m"
    by (simp_all add: fixture_def coin_values_init)
  have g: "replicate (nat (175 div 200)) 200 @ replicate (nat (175 mod 200 div 100)) 100 @
           replicate (nat (175 mod 200 mod 100 div 25)) 25 @
           replicate (nat (175 mod 200 mod 100 mod 25 div 10)) 10 @
           replicate (nat (175 mod 200 mod 100 mod 25 mod 10 div 5)) 5 = [100, 25, 25, 25::int]"
    by code_simp
  have c: "change_due ?m = 175" "out ?m = out fixture" by simp_all
  have n: "(0::int) \<le> 175" "(5::int) dvd 175" by simp_all
  note t = C1_change_sum[OF h, unfolded Let_def c g]
  show ?thesis using h(1) n t by blast
qed

text \<open>
  Claim C7. In \<open>add_coins\<close>, an event with an underscore whose part before the last
  underscore is a product key, for a product whose stock is 0 (or below), or whose stock is
  positive while the balance is below the price: \<open>update\<close> returns the machine it was
  given with one message appended to the output (out of stock, or insufficient funds with
  the price) and the event cleared. State, \<open>amount\<close>, \<open>change_due\<close> and \<open>stock\<close> are
  the same.
\<close>

theorem C7_failed_selection:
  assumes "state m = Some s" "cls s = AddCoinsState"
    and "CHR ''_'' \<in> set (event m)"
    and "map_of PRODUCTS (rsplit_head (event m)) = Some (product_name, price)"
    and "stock m (rsplit_head (event m)) = Some n"
    and "n \<le> 0 \<or> (0 < n \<and> amount m < price)"
  shows "update m =
           Some (Inr (m\<lparr>out := out m @ [if n \<le> 0 then Print_out_of_stock (rsplit_head (event m))
                                          else Print_insufficient price],
                         event := ''''\<rparr>))"
proof (cases "n \<le> 0")
  case True
  show ?thesis
    unfolding AddCoins_out_of_stock[OF assms(1-5) True] if_P[OF True] ..
next
  case False
  with assms(6) have p: "0 < n" "amount m < price" by simp_all
  show ?thesis
    unfolding AddCoins_insufficient[OF assms(1-5) p] if_not_P[OF False] ..
qed

theorem C7_failed_selection_witness:
  "update (fixture\<lparr>state := Some (Obj AddCoinsState 1), amount := 100,
                    stock := (stock fixture)(''res'' \<mapsto> 0), event := ''res_0''\<rparr>) =
     Some (Inr (fixture\<lparr>state := Some (Obj AddCoinsState 1), amount := 100,
                         stock := (stock fixture)(''res'' \<mapsto> 0), event := ''res_0'',
                         out := out fixture @ [Print_out_of_stock ''res''], event := ''''\<rparr>)) \<and>
   update (fixture\<lparr>state := Some (Obj AddCoinsState 1), amount := 100,
                    event := ''transistor_0''\<rparr>) =
     Some (Inr (fixture\<lparr>state := Some (Obj AddCoinsState 1), amount := 100,
                         event := ''transistor_0'',
                         out := out fixture @ [Print_insufficient 150], event := ''''\<rparr>))"
proof -
  let ?a = "fixture\<lparr>state := Some (Obj AddCoinsState 1), amount := 100,
                    stock := (stock fixture)(''res'' \<mapsto> 0), event := ''res_0''\<rparr>"
  let ?b = "fixture\<lparr>state := Some (Obj AddCoinsState 1), amount := 100,
                    event := ''transistor_0''\<rparr>"
  have ka: "rsplit_head (event ?a) = ''res''" and kb: "rsplit_head (event ?b) = ''transistor''"
    by (simp_all add: rsplit_head_def)
  have a: "state ?a = Some (Obj AddCoinsState 1)" "cls (Obj AddCoinsState 1) = AddCoinsState"
      "CHR ''_'' \<in> set (event ?a)"
      "map_of PRODUCTS (rsplit_head (event ?a)) = Some (''10k Resistor'', 5)"
      "stock ?a (rsplit_head (event ?a)) = Some 0"
      "(0::int) \<le> 0 \<or> ((0::int) < 0 \<and> amount ?a < 5)"
    unfolding ka by (simp_all add: PRODUCTS_def)
  have b: "state ?b = Some (Obj AddCoinsState 1)"
      "CHR ''_'' \<in> set (event ?b)"
      "map_of PRODUCTS (rsplit_head (event ?b)) = Some (''2N3904 BJT'', 150)"
      "stock ?b (rsplit_head (event ?b)) = Some 2"
      "(2::int) \<le> 0 \<or> ((0::int) < 2 \<and> amount ?b < 150)"
    unfolding kb by (simp_all add: PRODUCTS_def fixture_def INITIAL_STOCK_def)
  from C7_failed_selection[OF a] C7_failed_selection[OF b(1) a(2) b(2-5)]
  show ?thesis unfolding ka kb by simp
qed

text \<open>
  Claim C8, as amended. Take an event that is no coin key, not \<open>RETURN\<close> and no selection
  of a known product, and any state class. \<open>update\<close> raises nothing and leaves \<open>amount\<close>
  and \<open>stock\<close> as they were (in \<open>deliver_product\<close> and \<open>count_change\<close> the four states must
  be registered, and in \<open>count_change\<close> the coin values be those of \<open>__init__\<close>). In
  \<open>waiting\<close> and \<open>add_coins\<close> the state and \<open>change_due\<close> are unchanged too and nothing is
  printed or logged. \<open>deliver_product\<close> and \<open>count_change\<close> do not look at the event: they
  make their transition (to \<open>count_change\<close> or \<open>waiting\<close>; \<open>count_change\<close> pays out and sets
  \<open>change_due\<close> to 0), and the machine they leave is the same for every event, but for the
  field \<open>event\<close> itself, which they do not touch. The claim as stated fails: no report of
  the event is produced in any state, \<open>deliver_product\<close> leaves its state, and
  \<open>count_change\<close> leaves its state and sets a change due of 50 to 0.
\<close>

theorem C8_bad_event_ignored:
  assumes "state m = Some s"
    and "cls s = DeliverProductState \<or> cls s = CountChangeState \<Longrightarrow> registered m"
    and "cls s = CountChangeState \<Longrightarrow> coin_values m = coin_values (VendingMachine_init hw)"
    and "event m \<notin> fst ` set COINS" "event m \<noteq> ''RETURN''"
    and "\<not> (CHR ''_'' \<in> set (event m) \<and> rsplit_head (event m) \<in> fst ` set PRODUCTS)"
  shows "\<exists>m'. update m = Some (Inr m') \<and> amount m' = amount m \<and> stock m' = stock m \<and>
          (case cls s of
             DeliverProductState \<Rightarrow>
               change_due m' = change_due m \<and>
               state_name m' = Some (if 0 < change_due m then ''count_change'' else ''waiting'') \<and>
               (\<forall>e. update (m\<lparr>event := e\<rparr>) = Some (Inr (m'\<lparr>event := e\<rparr>)))
           | CountChangeState \<Rightarrow>
               change_due m' = 0 \<and>
               (\<forall>e. update (m\<lparr>event := e\<rparr>) = Some (Inr (m'\<lparr>event := e\<rparr>)))
           | _ \<Rightarrow> state m' = state m \<and> change_due m' = change_due m \<and> out m' = out m)"
proof (cases "cls s")
  case State
  then show ?thesis using assms(1) by (simp add: update_def State_update_def)
next
  case WaitingState
  show ?thesis
    unfolding Waiting_other[OF assms(1) WaitingState assms(4,5)] using WaitingState by simp
next
  case AddCoinsState
  show ?thesis
  proof (cases "CHR ''_'' \<in> set (event m)")
    case True
    with assms(6) have "rsplit_head (event m) \<notin> fst ` set PRODUCTS" by simp
    then have none: "map_of PRODUCTS (rsplit_head (event m)) = None"
      by (simp add: map_of_eq_None_iff)
    show ?thesis
      unfolding AddCoins_unknown_product[OF assms(1) AddCoinsState True none]
      using AddCoinsState assms(1) by simp
  next
    case False
    show ?thesis
      unfolding AddCoins_plain[OF assms(1) AddCoinsState False assms(5,4)]
      using AddCoinsState assms(1) by simp
  qed
next
  case DeliverProductState
  then have r: "registered m" using assms(2) by simp
  from registeredD[OF r] obtain w c where
    w: "states m ''waiting'' = Some w" "cls w = WaitingState" and
    c: "states m ''count_change'' = Some c" "cls c = CountChangeState" by blast
  have u: "update (m\<lparr>event := e\<rparr>) = Some (Inr (
           if 0 < change_due m
           then m\<lparr>event := e\<rparr>\<lparr>state := Some c,
                  out := out m @ [Log_exiting ''deliver_product'', Log_entering ''count_change'',
                                  Print_dispensing_change, Print_change_due (change_due m),
                                  Log_change_return (change_due m)]\<rparr>
           else m\<lparr>event := e\<rparr>\<lparr>state := Some w,
                  out := out m @ [Log_exiting ''deliver_product'', Log_entering ''waiting'',
                                  Print_waiting]\<rparr>))" for e
    using Deliver_update[of "m\<lparr>event := e\<rparr>" s c w] assms(1) DeliverProductState w c by simp
  show ?thesis
    unfolding Deliver_update[OF assms(1) DeliverProductState c w] u event_commute
    using DeliverProductState w(2) c(2) by (simp add: state_name_def name_def)
next
  case CountChangeState
  then have r: "registered m" and cv: "coin_values m = [200, 100, 25, 10, 5]"
    using assms(2,3) coin_values_init by simp_all
  from registeredD(1)[OF r] obtain w where
    w: "states m ''waiting'' = Some w" "cls w = WaitingState" by blast
  from for_coin_values_total obtain r ms where
    loop: "for_coin_values (coin_values m) (change_due m) (out m) = Some (r, ms)"
    unfolding cv by blast
  have u: "update (m\<lparr>event := e\<rparr>) = Some (Inr (
           if r = 0
           then m\<lparr>event := e\<rparr>\<lparr>change_due := 0, state := Some w,
                  out := ms @ [Log_exiting ''count_change'', Log_entering ''waiting'',
                               Print_waiting]\<rparr>
           else m\<lparr>event := e\<rparr>\<lparr>out := ms, change_due := 0\<rparr>))" for e
    using CountChange_update[of "m\<lparr>event := e\<rparr>" s r ms w] assms(1) CountChangeState w loop
    by simp
  show ?thesis
    unfolding CountChange_update[OF assms(1) CountChangeState loop w] u event_commute
    using CountChangeState by simp
qed

theorem C8_bad_event_ignored_counterexample:
  "(case update (fixture\<lparr>state := Some (Obj AddCoinsState 1), amount := 25,
                          event := ''foo_1''\<rparr>) of
      Some (Inr m') \<Rightarrow> out m' = out fixture
    | _ \<Rightarrow> False) \<and>
   (case update (fixture\<lparr>state := Some (Obj DeliverProductState 2), event := ''foo_1''\<rparr>) of
      Some (Inr m') \<Rightarrow> state_name m' = Some ''waiting''
    | _ \<Rightarrow> False) \<and>
   (case update (fixture\<lparr>state := Some (Obj CountChangeState 3), change_due := 50,
                          event := ''foo_1''\<rparr>) of
      Some (Inr m') \<Rightarrow> state_name m' = Some ''waiting'' \<and> change_due m' = 0
    | _ \<Rightarrow> False)"
  by code_simp

theorem C8_bad_event_ignored_witness:
  "(case update (fixture\<lparr>state := Some (Obj AddCoinsState 1), amount := 25,
                          event := ''foo_1''\<rparr>) of
      Some (Inr m') \<Rightarrow> state m' = Some (Obj AddCoinsState 1) \<and> amount m' = 25 \<and>
                        change_due m' = 0 \<and> stock m' = stock fixture \<and> out m' = out fixture
    | _ \<Rightarrow> False) \<and>
   (case update (fixture\<lparr>state := Some (Obj CountChangeState 3), change_due := 50,
                          event := ''__TIMEOUT__''\<rparr>) of
      Some (Inr m') \<Rightarrow> amount m' = 0 \<and> stock m' = stock fixture \<and> change_due m' = 0
    | _ \<Rightarrow> False)"
proof -
  let ?a = "fixture\<lparr>state := Some (Obj AddCoinsState 1), amount := 25, event := ''foo_1''\<rparr>"
  let ?b = "fixture\<lparr>state := Some (Obj CountChangeState 3), change_due := 50,
                     event := ''__TIMEOUT__''\<rparr>"
  have a: "state ?a = Some (Obj AddCoinsState 1)"
      "event ?a \<notin> fst ` set COINS" "event ?a \<noteq> ''RETURN''"
      "\<not> (CHR ''_'' \<in> set (event ?a) \<and> rsplit_head (event ?a) \<in> fst ` set PRODUCTS)"
    by (simp_all add: COINS_def PRODUCTS_def rsplit_head_def)
  have b: "state ?b = Some (Obj CountChangeState 3)" "registered ?b"
      "coin_values ?b = coin_values (VendingMachine_init False)"
      "event ?b \<notin> fst ` set COINS" "event ?b \<noteq> ''RETURN''"
      "\<not> (CHR ''_'' \<in> set (event ?b) \<and> rsplit_head (event ?b) \<in> fst ` set PRODUCTS)"
    by (simp_all add: COINS_def PRODUCTS_def rsplit_head_def fixture_def registered_def
        coin_values_init)
  have f: "amount ?a = 25" "change_due ?a = 0" "stock ?a = stock fixture" "out ?a = out fixture"
    "amount ?b = 0" "stock ?b = stock fixture"
    by (simp_all add: fixture_def)
  from C8_bad_event_ignored[of ?a "Obj AddCoinsState 1" False, OF a(1) _ _ a(2,3,4)]
  obtain ma where ma: "update ?a = Some (Inr ma)" "amount ma = amount ?a"
    "stock ma = stock ?a" "state ma = state ?a" "change_due ma = change_due ?a"
    "out ma = out ?a"
    by auto
  from C8_bad_event_ignored[of ?b "Obj CountChangeState 3" False, OF b(1) _ _ b(4,5,6)] b(2,3)
  obtain mb where mb: "update ?b = Some (Inr mb)" "amount mb = amount ?b"
    "stock mb = stock ?b" "change_due mb = 0"
    by auto
  show ?thesis
    unfolding ma(1) mb(1) using ma(2-) mb(2-) f a(1) by simp
qed

text \<open>
  Claim C10. \<open>add_state\<close> is total: it binds the name of the state to the state,
  whatever was bound before, and leaves every other name as it was. After registering
  \<open>s1\<close> and then \<open>s\<close> under the same name the lookup yields \<open>s\<close>, and a
  \<open>go_to_state\<close> to that name that returns has made \<open>s\<close> the active state.
\<close>

theorem C10_last_registered_wins:
  "states (add_state m s) (name s) = Some s \<and>
   (\<forall>n. n \<noteq> name s \<longrightarrow> states (add_state m s) n = states m n) \<and>
   (name s1 = name s \<longrightarrow> states (add_state (add_state m s1) s) (name s1) = Some s) \<and>
   (\<forall>m'. go_to_state (add_state m s) (name s) = Inr m' \<longrightarrow> state m' = Some s)"
proof -
  have g: "state m' = Some s" if "go_to_state (add_state m s) (name s) = Inr m'" for m'
  proof -
    have l: "states (add_state m s) (name s) = Some s" by (simp add: add_state_def)
    show ?thesis
      using that unfolding go_to_state_Some[OF l] on_entry_def
        DeliverProductState_on_entry_def Let_def
      by (cases "cls s") (auto split: if_splits option.splits prod.splits)
  qed
  show ?thesis using g by (simp add: add_state_def)
qed

theorem C10_last_registered_wins_witness:
  "name (Obj WaitingState 7) = name (Obj WaitingState 0) \<and>
   states (add_state fixture (Obj WaitingState 7)) ''waiting'' = Some (Obj WaitingState 7) \<and>
   ''add_coins'' \<noteq> name (Obj WaitingState 7) \<and>
   states (add_state fixture (Obj WaitingState 7)) ''add_coins'' = Some (Obj AddCoinsState 1) \<and>
   (case go_to_state (add_state fixture (Obj WaitingState 7)) ''waiting'' of
      Inr m' \<Rightarrow> state m' = Some (Obj WaitingState 7) | Inl e \<Rightarrow> False)"
proof -
  have n: "name (Obj WaitingState 7) = ''waiting''" "name (Obj WaitingState 0) = ''waiting''"
    by (simp_all add: name_def)
  have a: "states fixture ''add_coins'' = Some (Obj AddCoinsState 1)"
    by (simp add: fixture_def)
  obtain m' where m': "go_to_state (add_state fixture (Obj WaitingState 7)) ''waiting'' = Inr m'"
    by (simp add: go_to_state_def add_state_def on_entry_def on_exit_def Let_def n fixture_def)
  from C10_last_registered_wins[of fixture "Obj WaitingState 7" "Obj WaitingState 0", unfolded n]
  show ?thesis unfolding n using a m' by simp
qed




text \<open>
  Claim C3, as amended. When the stock recheck at the entry of \<open>deliver_product\<close> fails
  with a positive balance, the machine leaves that state at the next \<open>update\<close> with
  \<open>amount\<close> and \<open>change_due\<close> as they were before the entry: the balance is neither
  moved into \<open>change_due\<close> nor set to 0, it stays held as balance. The claim as stated
  (\<open>change_due\<close> set to the balance, balance set to 0) fails on the run of the
  counterexample, which ends with balance 100 and change due 0.
\<close>

theorem C3_failed_recheck_keeps_balance:
  assumes "registered m" "stock_get m (event m) 0 \<le> 0" "0 < amount m"
  shows "\<exists>m1 m2. go_to_state m ''deliver_product'' = Inr m1 \<and> update m1 = Some (Inr m2) \<and>
           state_name m2 \<noteq> Some ''deliver_product'' \<and>
           amount m1 = amount m \<and> change_due m1 = change_due m \<and>
           amount m2 = amount m \<and> change_due m2 = change_due m"
proof -
  from failed_dispense[OF assms(1,2)] obtain d ms where
    d: "cls d = DeliverProductState" and
    g: "go_to_state m ''deliver_product'' =
          Inr (m\<lparr>state := Some d, out := ms,
                  vend_successful := Some False, selected_button_key := None\<rparr>)"
    by blast
  let ?m1 = "m\<lparr>state := Some d, out := ms,
                vend_successful := Some False, selected_button_key := None\<rparr>"
  have r1: "registered ?m1" using assms(1) by (simp add: registered_def)
  have s1: "state ?m1 = Some d" by simp
  from leave_deliver[OF r1 s1 d] obtain t ms2 where
    u: "update ?m1 = Some (Inr (?m1\<lparr>state := Some t, out := ms2\<rparr>))" and
    t: "cls t = (if 0 < change_due ?m1 then CountChangeState else WaitingState)"
    by blast
  have n2: "state_name (?m1\<lparr>state := Some t, out := ms2\<rparr>) \<noteq> Some ''deliver_product''"
    using t by (simp add: state_name_def name_def)
  show ?thesis
    unfolding g using n2 u by simp
qed

theorem C3_failed_recheck_keeps_balance_counterexample:
  "(case go_to_state (fixture\<lparr>amount := 100, stock := (stock fixture)(''res'' \<mapsto> 0),
                               event := ''res''\<rparr>) ''deliver_product'' of
      Inr m1 \<Rightarrow>
        (case update m1 of
           Some (Inr m2) \<Rightarrow> state_name m2 = Some ''waiting'' \<and> amount m2 = 100 \<and>
                            change_due m2 = 0
         | _ \<Rightarrow> False)
    | Inl e \<Rightarrow> False)"
  by code_simp

theorem C3_failed_recheck_keeps_balance_witness:
  "registered (fixture\<lparr>amount := 100, stock := (stock fixture)(''res'' \<mapsto> 0),
                        event := ''res''\<rparr>) \<and>
   stock_get (fixture\<lparr>amount := 100, stock := (stock fixture)(''res'' \<mapsto> 0),
                       event := ''res''\<rparr>) ''res'' 0 \<le> 0 \<and> (0::int) < 100 \<and>
   (case go_to_state (fixture\<lparr>amount := 100, stock := (stock fixture)(''res'' \<mapsto> 0),
                               event := ''res''\<rparr>) ''deliver_product'' of
      Inr m1 \<Rightarrow>
        (case update m1 of
           Some (Inr m2) \<Rightarrow> amount m2 = 100 \<and> change_due m2 = 0
         | _ \<Rightarrow> False)
    | Inl e \<Rightarrow> False)"
proof -
  let ?m = "fixture\<lparr>amount := 100, stock := (stock fixture)(''res'' \<mapsto> 0), event := ''res''\<rparr>"
  have h: "registered ?m" "stock_get ?m (event ?m) 0 \<le> 0" "0 < amount ?m"
    by (simp_all add: registered_def fixture_def stock_get_def)
  have c: "amount ?m = 100" "change_due ?m = 0" "event ?m = ''res''"
    by (simp_all add: fixture_def)
  from C3_failed_recheck_keeps_balance[OF h] obtain m1 m2 where
    "go_to_state ?m ''deliver_product'' = Inr m1" "update m1 = Some (Inr m2)"
    "amount m2 = amount ?m" "change_due m2 = change_due ?m"
    by blast
  then show ?thesis using h c by simp
qed

text \<open>
  Claim C2, as amended. Take any machine \<open>m\<close> the main program reaches in \<open>add_coins\<close> or
  in \<open>deliver_product\<close>, the hardware button being pressed at any points, and a pass of the
  loop that leaves that state. Right after it exactly one of \<open>amount\<close> and \<open>change_due\<close> is
  positive, with one exception, in which both are 0: the product just sold was paid at
  exactly its price. That is the transition from \<open>add_coins\<close> into \<open>deliver_product\<close> that
  dispenses a product whose price is the balance, and the transition from
  \<open>deliver_product\<close> to \<open>waiting\<close> that follows it. In no case are both positive. The
  claim as stated fails on the run of the counterexample (three coins of 25, then the diode
  at 75).
\<close>

theorem C2_after_transition:
  assumes "run hw passes = Some (Inr m)"
    and "state_name m = Some ''add_coins'' \<or> state_name m = Some ''deliver_product''"
    and "tick F ev m = Some (Inr m')"
    and "state_name m' \<noteq> state_name m"
  shows "(0 < amount m') \<noteq> (0 < change_due m') \<or>
         (amount m' = 0 \<and> change_due m' = 0 \<and>
          (if state_name m = Some ''add_coins''
           then state_name m' = Some ''deliver_product'' \<and> vend_successful m' = Some True \<and>
                (\<exists>pn. map_of PRODUCTS (rsplit_head ev) = Some (pn, amount m))
           else state_name m' = Some ''waiting'' \<and> amount m = 0 \<and> change_due m = 0))"
proof -
  from run_ok[of hw passes] assms(1) have ok: "machine_ok m" by auto
  define v1 where "v1 = (if event (fire F L362 m) = ''RETURN'' then fire F L362 m
                        else (fire F L367 (fire F L362 m))\<lparr>event := ev\<rparr>)"
  have v1: "machine_ok v1" "state v1 = state m" "amount v1 = amount m"
    "change_due v1 = change_due m" "event v1 = ''RETURN'' \<or> event v1 = ev"
    using ok by (simp_all add: v1_def)
  from tick_fields[OF assms(3), folded v1_def] obtain v2 where
    v2: "update_at F v1 = Some (Inr v2)" "state m' = state v2" "amount m' = amount v2"
        "change_due m' = change_due v2"
        "state_name v2 = Some ''deliver_product'' \<Longrightarrow> vend_successful m' = vend_successful v2"
    by blast
  have sn: "state_name m' = state_name v2" using v2(2) by (simp add: state_name_def)
  from machine_okD(8)[OF ok] obtain s where
    s: "state m = Some s" "phase_ok (cls s) (amount m) (change_due m)" by blast
  show ?thesis
  proof (cases "state_name m = Some ''add_coins''")
    case True
    then have a: "cls s = AddCoinsState" using s(1) by (simp add: state_name_def name_cls)
    with s(2) have ph: "0 < amount m" "change_due m = 0" by (simp_all add: phase_ok_def)
    have s1: "state v1 = Some s" using s(1) v1(2) by simp
    from update_at_AddCoins[OF v1(1) s1 a, of F] v2(1)
    consider (stay) "state v2 = state v1"
      | (ret) "state_name v2 = Some ''count_change''" "amount v2 = 0"
              "change_due v2 = amount v1"
      | (failed) "amount v2 = amount v1" "change_due v2 = change_due v1"
      | (sold) pn price where "state_name v2 = Some ''deliver_product''"
          "vend_successful v2 = Some True" "amount v2 = 0"
          "map_of PRODUCTS (rsplit_head (event v1)) = Some (pn, price)"
          "price \<le> amount v1" "change_due v2 = amount v1 - price"
      by auto
    then show ?thesis
    proof cases
      case stay
      then have "state_name m' = state_name m"
        using v2(2) v1(2) by (simp add: state_name_def)
      with assms(4) show ?thesis by simp
    next
      case ret
      then show ?thesis using v2(3,4) v1(3) ph by simp
    next
      case failed
      then show ?thesis using v2(3,4) v1(3,4) ph by simp
    next
      case sold
      have "event v1 \<noteq> ''RETURN''" using sold(4) rsplit_head_RETURN by auto
      with v1(5) have e: "event v1 = ev" by simp
      show ?thesis
      proof (cases "price = amount m")
        case True
        then show ?thesis
          using sold v2(3,4) v2(5)[OF sold(1)] v1(3) sn e \<open>state_name m = Some ''add_coins''\<close>
          by simp
      next
        case False
        then have "0 < change_due m'" using sold(5,6) v2(4) v1(3) by simp
        then show ?thesis using sold(3) v2(3) by simp
      qed
    qed
  next
    case False
    with assms(2) have dn: "state_name m = Some ''deliver_product''" by simp
    then have d: "cls s = DeliverProductState"
      using s(1) by (simp add: state_name_def name_cls)
    with s(2) have ph: "(amount m = 0 \<and> 0 \<le> change_due m) \<or>
                        (0 < amount m \<and> change_due m = 0)"
      by (simp add: phase_ok_def)
    have s1: "state v1 = Some s" using s(1) v1(2) by simp
    note reg = machine_okD(1)[OF v1(1)]
    from leave_deliver[OF reg s1 d] obtain t ms where
      u: "update v1 = Some (Inr (v1\<lparr>state := Some t, out := ms\<rparr>))" and
      t: "cls t = (if 0 < change_due v1 then CountChangeState else WaitingState)"
      by blast
    from v2(1) have v2e: "v2 = v1\<lparr>state := Some t, out := ms\<rparr>"
      unfolding update_at_Deliver[OF reg s1 d] u by simp
    have f: "amount m' = amount m" "change_due m' = change_due m"
      using v2(3,4) v1(3,4) by (simp_all add: v2e)
    show ?thesis
    proof (cases "amount m = 0 \<and> change_due m = 0")
      case True
      then have "cls t = WaitingState" using t v1(4) by simp
      then have "state_name m' = Some ''waiting''"
        unfolding sn by (simp add: v2e state_name_def name_def)
      then show ?thesis using True f False by simp
    next
      case False
      then show ?thesis using ph f by auto
    qed
  qed
qed

theorem C2_after_transition_counterexample:
  "(case run False [({}, ''25''), ({}, ''25''), ({}, ''25'')] of
      Some (Inr m) \<Rightarrow> state_name m = Some ''add_coins'' \<and>
        (case tick {} ''diode_0'' m of
           Some (Inr m') \<Rightarrow> state_name m' = Some ''deliver_product'' \<and>
                            \<not> 0 < amount m' \<and> \<not> 0 < change_due m'
         | _ \<Rightarrow> False)
    | _ \<Rightarrow> False)"
  by code_simp

theorem C2_after_transition_witness:
  "(case run True [({}, ''100'')] of
      Some (Inr m) \<Rightarrow> state_name m = Some ''add_coins'' \<and>
        (case tick {L234} ''cap_0'' m of
           Some (Inr m') \<Rightarrow> state_name m' = Some ''deliver_product'' \<and>
                            amount m' = 100 \<and> change_due m' = 0 \<and>
                            (0 < amount m') \<noteq> (0 < change_due m')
         | _ \<Rightarrow> False) \<and>
        (case tick {} ''cap_0'' m of
           Some (Inr m') \<Rightarrow> state_name m' = Some ''deliver_product'' \<and>
                            amount m' = 0 \<and> change_due m' = 50 \<and>
                            (0 < amount m') \<noteq> (0 < change_due m')
         | _ \<Rightarrow> False)
    | _ \<Rightarrow> False)"
proof -
  have e: "(case run True [({}, ''100'')] of
      Some (Inr m) \<Rightarrow> state_name m = Some ''add_coins'' \<and> amount m = 100 \<and>
        (case tick {L234} ''cap_0'' m of
           Some (Inr m') \<Rightarrow> state_name m' = Some ''deliver_product'' \<and>
                            amount m' = 100 \<and> change_due m' = 0
         | _ \<Rightarrow> False) \<and>
        (case tick {} ''cap_0'' m of
           Some (Inr m') \<Rightarrow> state_name m' = Some ''deliver_product'' \<and>
                            amount m' = 0 \<and> change_due m' = 50
         | _ \<Rightarrow> False)
    | _ \<Rightarrow> False)"
    by code_simp
  from returnsD[OF e] obtain m where
    r: "run True [({}, ''100'')] = Some (Inr m)" "state_name m = Some ''add_coins''"
       "amount m = 100" and
    e1: "(case tick {L234} ''cap_0'' m of
           Some (Inr m') \<Rightarrow> state_name m' = Some ''deliver_product'' \<and>
                            amount m' = 100 \<and> change_due m' = 0
         | _ \<Rightarrow> False)" and
    e2: "(case tick {} ''cap_0'' m of
           Some (Inr m') \<Rightarrow> state_name m' = Some ''deliver_product'' \<and>
                            amount m' = 0 \<and> change_due m' = 50
         | _ \<Rightarrow> False)"
    by blast
  from returnsD[OF e1] obtain m1 where
    r1: "tick {L234} ''cap_0'' m = Some (Inr m1)" "state_name m1 = Some ''deliver_product''"
        "amount m1 = 100" "change_due m1 = 0"
    by blast
  from returnsD[OF e2] obtain m2 where
    r2: "tick {} ''cap_0'' m = Some (Inr m2)" "state_name m2 = Some ''deliver_product''"
        "amount m2 = 0" "change_due m2 = 50"
    by blast
  have n1: "state_name m1 \<noteq> state_name m" using r(2) r1(2) by simp
  have n2: "state_name m2 \<noteq> state_name m" using r(2) r2(2) by simp
  from C2_after_transition[OF r(1) disjI1[OF r(2)] r1(1) n1]
       C2_after_transition[OF r(1) disjI1[OF r(2)] r2(1) n2]
  show ?thesis using r r1 r2 by simp
qed

text \<open>
  Claim C5. Start in \<open>waiting\<close> with balance 0 (states registered, no sale waiting for its
  frame to be hidden). Insert coins whose values sum to the price of a product that is in
  stock and select that product, the hardware button not being pressed; the selection
  leaves the machine in \<open>deliver_product\<close>, and the next pass of the loop, whatever the
  window returns for it, ends in \<open>waiting\<close>. The main loop returns, \<open>amount\<close> and
  \<open>change_due\<close> are 0, the stock of the product is one less and every other stock count is
  as it was.
\<close>

theorem C5_exact_purchase:
  assumes "registered m" "state m = Some s" "cls s = WaitingState" "amount m = 0"
    and "event m \<noteq> ''RETURN''" "vend_successful m \<noteq> Some True"
    and "map_of PRODUCTS p = Some (product_name, price)"
    and "stock m p = Some n" "0 < n"
    and "set coins \<subseteq> fst ` set COINS" "sum_list (map coin_value coins) = price"
    and "CHR ''_'' \<notin> set idx" "e \<noteq> ''Exit''"
  shows "\<exists>m'. main_loop (map (Pair {}) coins @ [({}, p @ ''_'' @ idx), ({}, e)]) m =
                 Some (Inr m') \<and>
           state_name m' = Some ''waiting'' \<and> amount m' = 0 \<and> change_due m' = 0 \<and>
           stock m' = (stock m)(p \<mapsto> n - 1)"
proof -
  let ?sel = "p @ ''_'' @ idx"
  let ?rest = "[({}, ?sel), ({}, e)] :: (point set \<times> string) list"
  from map_of_PRODUCTS[OF assms(7)] have "0 < price" by simp
  with assms(11) obtain c cs where coins: "coins = c # cs" by (cases coins) auto
  have c: "c \<in> fst ` set COINS" and cs: "set cs \<subseteq> fst ` set COINS"
    using assms(10) coins by simp_all
  have ne: "c \<noteq> ''Exit''" using c Exit_not_coin by metis
  from tick_Waiting_coin[OF assms(2,3,5,6) c assms(1)] obtain m1 a where
    m1: "tick {} c m = Some (Inr m1)" "state m1 = Some a" "cls a = AddCoinsState"
        "states m1 = states m" "stock m1 = stock m"
        "vend_successful m1 = vend_successful m" "event m1 = ''''"
        "amount m1 = amount m + coin_value c"
    by blast
  have p1: "event m1 \<noteq> ''RETURN''" "vend_successful m1 \<noteq> Some True"
    using m1 assms(6) by simp_all
  from main_loop_coins[OF m1(2,3) p1 cs, of ?rest] obtain m2 where
    m2: "main_loop (map (Pair {}) cs @ ?rest) m1 = main_loop ?rest m2" "state m2 = state m1"
        "states m2 = states m1" "stock m2 = stock m1"
        "vend_successful m2 = vend_successful m1" "event m2 \<noteq> ''RETURN''"
        "amount m2 = amount m1 + sum_list (map coin_value cs)"
    by blast
  have a2: "amount m2 = price" using m2(7) m1(8) assms(4,11) coins by simp
  have p2: "state m2 = Some a" "registered m2" "stock m2 p = Some n" "price \<le> amount m2"
    using m2(2,3,4) m1(2,4,5) assms(1,8) a2 by (simp_all add: registered_def)
  from tick_purchase[OF p2(1) m1(3) m2(6) p2(2) assms(12,7) p2(3) assms(9) p2(4)]
  obtain m3 d where
    m3: "tick {} ?sel m2 = Some (Inr m3)" "state m3 = Some d" "cls d = DeliverProductState"
        "states m3 = states m2" "stock m3 = (stock m2)(p \<mapsto> n - 1)" "amount m3 = 0"
        "change_due m3 = amount m2 - price" "vend_successful m3 = Some True"
        "selected_button_key m3 = Some ?sel" "event m3 = ''''"
    by blast
  have p3: "event m3 \<noteq> ''RETURN''" "registered m3" "change_due m3 \<le> 0"
    using m3(4,7,10) m2(3) m1(4) assms(1) a2 by (simp_all add: registered_def)
  from tick_leave_deliver[OF m3(2,3) p3 m3(8,9), of e] obtain m4 where
    m4: "tick {} e m3 = Some (Inr m4)" "state_name m4 = Some ''waiting''"
        "amount m4 = amount m3" "change_due m4 = change_due m3" "stock m4 = stock m3"
    by blast
  have "main_loop (map (Pair {}) coins @ ?rest) m = main_loop (map (Pair {}) cs @ ?rest) m1"
    unfolding coins using ne m1(1) by simp
  also have "\<dots> = main_loop ?rest m2" by (rule m2(1))
  also have "\<dots> = Some (Inr m4)"
    using selection_not_Exit[of p idx] m3(1) assms(13) m4(1) by simp
  finally have r: "main_loop (map (Pair {}) coins @ ?rest) m = Some (Inr m4)" .
  have f: "amount m4 = 0" "change_due m4 = 0" "stock m4 = (stock m)(p \<mapsto> n - 1)"
    using m4(3,4,5) m3(5,6,7) m2(4) m1(5) a2 by simp_all
  from r m4(2) f show ?thesis by blast
qed

theorem C5_exact_purchase_witness:
  "(case main_loop [({}, ''25''), ({}, ''25''), ({}, ''25''), ({}, ''diode_0''),
                    ({}, ''__TIMEOUT__'')] fixture of
      Some (Inr m') \<Rightarrow> state_name m' = Some ''waiting'' \<and> amount m' = 0 \<and>
                        change_due m' = 0 \<and> stock m' = (stock fixture)(''diode'' \<mapsto> 2)
    | _ \<Rightarrow> False)"
proof -
  have h: "registered fixture" "state fixture = Some (Obj WaitingState 0)"
    "cls (Obj WaitingState 0) = WaitingState" "amount fixture = 0"
    "event fixture \<noteq> ''RETURN''" "vend_successful fixture \<noteq> Some True"
    "map_of PRODUCTS ''diode'' = Some (''1N4001 diode'', 75)"
    "stock fixture ''diode'' = Some 3" "(0::int) < 3"
    "set [''25'', ''25'', ''25''] \<subseteq> fst ` set COINS"
    "sum_list (map coin_value [''25'', ''25'', ''25'']) = 75"
    "CHR ''_'' \<notin> set ''0''" "''__TIMEOUT__'' \<noteq> ''Exit''"
    by (simp_all add: registered_def fixture_def PRODUCTS_def COINS_def INITIAL_STOCK_def
        coin_value_def)
  from C5_exact_purchase[OF h] obtain m' where
    "main_loop [({}, ''25''), ({}, ''25''), ({}, ''25''), ({}, ''diode_0''),
                ({}, ''__TIMEOUT__'')] fixture = Some (Inr m')"
    "state_name m' = Some ''waiting''" "amount m' = 0" "change_due m' = 0"
    "stock m' = (stock fixture)(''diode'' \<mapsto> 3 - 1)"
    by auto
  then show ?thesis by simp
qed

end
